theory Spec2Isabelle
  imports Complex_Main "HOL-Library.Monad_Syntax"
begin

section \<open>Bytes and C strings\<close>

text \<open>
  A C \<open>char\<close> is a HOL \<open>char\<close> (one byte).  A C string is the run of bytes before the
  first NUL; strings that the program holds by value (history entries, completion
  candidates, the prompt) are HOL strings without the terminator.
\<close>

abbreviation NUL :: char where "NUL \<equiv> CHR 0x00"
abbreviation TAB :: char where "TAB \<equiv> CHR 0x09"
abbreviation LF :: char where "LF \<equiv> CHR 0x0A"
abbreviation CR :: char where "CR \<equiv> CHR 0x0D"
abbreviation ESC :: char where "ESC \<equiv> CHR 0x1B"
abbreviation BEL :: char where "BEL \<equiv> CHR 0x07"

section \<open>History (clir.c, lines 890-999)\<close>

text \<open>
  The globals \<open>history\<close>, \<open>history_len\<close> and \<open>history_max_len\<close>.  The field
  \<open>history\<close> lists the live slots \<open>history[0] .. history[history_len - 1]\<close>, oldest
  first, so \<open>history_len\<close> is its length; \<open>history_alloc\<close> says whether the array
  pointer is non-NULL.
\<close>

record hist =
  history_alloc :: bool
  history :: "string list"
  history_max_len :: int

definition history_len :: "hist \<Rightarrow> int" where
  "history_len h = int (length (history h))"

definition LINENOISE_DEFAULT_HISTORY_MAX_LEN :: int where
  "LINENOISE_DEFAULT_HISTORY_MAX_LEN = 100"

definition LINENOISE_MAX_LINE :: nat where
  "LINENOISE_MAX_LINE = 4096"

text \<open>The state of the globals at program start.\<close>

definition hist0 :: hist where
  "hist0 = \<lparr>history_alloc = False, history = [],
            history_max_len = LINENOISE_DEFAULT_HISTORY_MAX_LEN\<rparr>"

text \<open>
  \<open>clirHistoryAdd\<close>.  The two booleans are the outcomes of the two allocations
  (\<open>malloc\<close> of the array on first use, \<open>strdup\<close> of the line); \<open>True\<close> is success.
  The statements are kept in the order of the source: the eviction at capacity comes
  before the comparison with the most recent entry.
\<close>

definition clirHistoryAdd :: "bool \<Rightarrow> bool \<Rightarrow> string \<Rightarrow> hist \<Rightarrow> int \<times> hist" where
  "clirHistoryAdd malloc_ok strdup_ok line h =
     (if history_max_len h = 0 then (0, h)
      else if \<not> history_alloc h \<and> \<not> malloc_ok then (0, h)
      else
        let h1 = h\<lparr>history_alloc := True\<rparr> in
        if \<not> strdup_ok then (0, h1)
        else
          let h2 = (if history_len h1 = history_max_len h1
                    then h1\<lparr>history := tl (history h1)\<rparr> else h1) in
          if history_len h2 \<noteq> 0 \<and> last (history h2) = line then (0, h2)
          else (1, h2\<lparr>history := history h2 @ [line]\<rparr>))"

text \<open>
  \<open>clirHistorySetMaxLen\<close>.  The boolean is the outcome of the \<open>malloc\<close> of the new
  array, which is only attempted when an array exists.
\<close>

definition clirHistorySetMaxLen :: "bool \<Rightarrow> int \<Rightarrow> hist \<Rightarrow> int \<times> hist" where
  "clirHistorySetMaxLen malloc_ok n h =
     (if n < 1 then (0, h)
      else if history_alloc h \<and> \<not> malloc_ok then (0, h)
      else
        let h1 = (if history_alloc h
                  then (let tocopy = (if n < history_len h then n else history_len h)
                        in h\<lparr>history := drop (length (history h) - nat tocopy) (history h)\<rparr>)
                  else h);
            h2 = h1\<lparr>history_max_len := n\<rparr>
        in (1, if history_len h2 > history_max_len h2
               then h2\<lparr>history := take (nat (history_max_len h2)) (history h2)\<rparr>
               else h2))"

text \<open>Sequences of the two operations, as a client of the library issues them.\<close>

datatype hist_op = Add bool bool string | SetMaxLen bool int

fun hist_step :: "hist_op \<Rightarrow> hist \<Rightarrow> hist" where
  "hist_step (Add m s line) h = snd (clirHistoryAdd m s line h)"
| "hist_step (SetMaxLen m n) h = snd (clirHistorySetMaxLen m n h)"

fun run_hist :: "hist_op list \<Rightarrow> hist \<Rightarrow> hist" where
  "run_hist [] h = h"
| "run_hist (x # xs) h = run_hist xs (hist_step x h)"

text \<open>
  What holds of the globals in every state the operations reach: a capacity of at
  least one, no more live entries than the capacity, and no entries without an array.
\<close>

definition hist_ok :: "hist \<Rightarrow> bool" where
  "hist_ok h \<longleftrightarrow> 1 \<le> history_max_len h \<and> history_len h \<le> history_max_len h
               \<and> (history_alloc h \<or> history h = [])"

subsection \<open>Loading from a file\<close>

text \<open>
  The file system is a map from paths to file contents; \<open>fopen(filename, "r")\<close>
  returns NULL exactly when the map has no file at the path.  \<open>fgets_line k s\<close>
  reads at most \<open>k\<close> bytes of the stream \<open>s\<close>, stopping after a newline, and
  returns the bytes read and the rest of the stream.
\<close>

type_synonym fs = "string \<Rightarrow> string option"

fun fgets_line :: "nat \<Rightarrow> string \<Rightarrow> string \<times> string" where
  "fgets_line 0 s = ([], s)"
| "fgets_line (Suc k) [] = ([], [])"
| "fgets_line (Suc k) (c # s) =
     (if c = LF then ([c], s)
      else (case fgets_line k s of (l, r) \<Rightarrow> (c # l, r)))"

definition fgets :: "nat \<Rightarrow> string \<Rightarrow> (string \<times> string) option" where
  "fgets n s = (if s = [] then None else Some (fgets_line (n - 1) s))"

text \<open>
  The three lines after \<open>fgets\<close>: the line is cut at its first CR, or else at its
  first LF.  Both searches are \<open>strchr\<close> on the C string in the buffer, which ends at
  the first NUL byte read from the file.
\<close>

definition chomp :: "string \<Rightarrow> string" where
  "chomp l =
     (let s = takeWhile (\<lambda>c. c \<noteq> NUL) l
      in if CR \<in> set s then takeWhile (\<lambda>c. c \<noteq> CR) s
         else takeWhile (\<lambda>c. c \<noteq> LF) s)"

lemma fgets_line_shorter:
  "fgets_line (Suc k) (c # s) = (l, r) \<Longrightarrow> length r \<le> length s"
proof (induction k arbitrary: c s l r)
  case 0
  then show ?case by (auto split: if_splits)
next
  case (Suc k)
  show ?case
  proof (cases s)
    case Nil
    with Suc.prems show ?thesis by (auto split: if_splits)
  next
    case (Cons d s')
    with Suc.prems Suc.IH [of d s'] show ?thesis
      by (auto split: if_splits prod.splits)
  qed
qed

function load_lines :: "string \<Rightarrow> hist \<Rightarrow> hist" where
  "load_lines s h =
     (case fgets LINENOISE_MAX_LINE s of
        None \<Rightarrow> h
      | Some (l, r) \<Rightarrow> load_lines r (snd (clirHistoryAdd True True (chomp l) h)))"
  by pat_completeness auto
termination
proof (relation "measure (\<lambda>(s, h). length s)")
  show "wf (measure (\<lambda>(s, h). length s))" by simp
next
  fix s :: string and h :: hist and x2 x y
  assume a: "fgets LINENOISE_MAX_LINE s = Some x2" and b: "(x, y) = x2"
  from a obtain c s' where s: "s = c # s'"
    by (cases s) (auto simp: fgets_def)
  from a b s have "fgets_line (Suc 4094) (c # s') = (x, y)"
    by (simp add: fgets_def LINENOISE_MAX_LINE_def)
  then have "length y \<le> length s'" by (rule fgets_line_shorter)
  with s show "((y, snd (clirHistoryAdd True True (chomp x) h)), s, h)
        \<in> measure (\<lambda>(s, h). length s)" by simp
qed

declare load_lines.simps [simp del]

text \<open>
  \<open>clirHistoryLoad\<close>: \<open>-1\<close> when the file cannot be opened, otherwise every line
  read by \<open>fgets\<close> is added and the result is \<open>0\<close>.  (The allocations made by
  \<open>clirHistoryAdd\<close> here are taken to succeed.)
\<close>

definition clirHistoryLoad :: "fs \<Rightarrow> string \<Rightarrow> hist \<Rightarrow> int \<times> hist" where
  "clirHistoryLoad files filename h =
     (case files filename of
        None \<Rightarrow> (-1, h)
      | Some s \<Rightarrow> (0, load_lines s h))"

section \<open>The terminal and the outside world\<close>

text \<open>
  What the editing code exchanges with its environment:
  \<^item> \<open>wres\<close>: the outcomes of the coming \<open>write\<close> calls on the terminal descriptor
    (the function \<open>write_fd\<close> below),
    \<open>False\<close> for a call that returns \<open>-1\<close>; once the list is used up every call
    succeeds;
  \<^item> \<open>tout\<close>: the byte strings that successful \<open>write\<close> calls have sent, in order;
  \<^item> \<open>sout\<close>: the strings printed on standard output with \<open>printf\<close>;
  \<^item> \<open>beeps\<close>: how often \<open>clirBeep\<close> has rung the bell on standard error;
  \<^item> \<open>cb_args\<close>: the argument of every call of the completion callback, in order.
\<close>

record io =
  wres :: "bool list"
  tout :: "string list"
  sout :: "string list"
  beeps :: nat
  cb_args :: "string list"

definition write_fd :: "io \<Rightarrow> string \<Rightarrow> bool \<times> io" where
  "write_fd t s =
     (case wres t of
        [] \<Rightarrow> (True, t\<lparr>tout := tout t @ [s]\<rparr>)
      | ok # w \<Rightarrow> (ok, if ok then t\<lparr>wres := w, tout := tout t @ [s]\<rparr> else t\<lparr>wres := w\<rparr>))"

text \<open>
  A run of \<open>if (write(...) == -1) return;\<close> statements: the chunks are written in
  order until one fails.  A chunk \<open>None\<close> is a \<open>write\<close> whose source bytes do not lie
  inside the object they are read from; reaching it is undefined behaviour, the
  result \<open>None\<close>.
\<close>

fun write_seq :: "io \<Rightarrow> string option list \<Rightarrow> (bool \<times> io) option" where
  "write_seq t [] = Some (True, t)"
| "write_seq t (None # xs) = None"
| "write_seq t (Some s # xs) =
     (case write_fd t s of (ok, t') \<Rightarrow> if ok then write_seq t' xs else Some (False, t'))"

definition printf :: "io \<Rightarrow> string \<Rightarrow> io" where
  "printf t s = t\<lparr>sout := sout t @ [s]\<rparr>"

definition clirBeep :: "io \<Rightarrow> io" where
  "clirBeep t = t\<lparr>beeps := beeps t + 1\<rparr>"

text \<open>
  The input side of the descriptor is a list of events, one per \<open>read\<close> call that
  finds something: \<open>Bytes b\<close> are bytes that are available together (a \<open>read\<close> of
  \<open>n\<close> bytes takes at most \<open>n\<close> of them and leaves the rest for the next call), and
  \<open>ReadError\<close> is a call that returns \<open>-1\<close>.  At the end of the list \<open>read\<close> returns
  0.  The result is the return value of \<open>read\<close>, the bytes stored and the events left.
\<close>

datatype input = Bytes string | ReadError

fun read_fd :: "nat \<Rightarrow> input list \<Rightarrow> int \<times> string \<times> input list" where
  "read_fd n [] = (0, [], [])"
| "read_fd n (ReadError # r) = (-1, [], r)"
| "read_fd n (Bytes b # r) =
     (int (length (take n b)), take n b,
      if length b \<le> n then r else Bytes (drop n b) # r)"

fun input_size :: "input list \<Rightarrow> nat" where
  "input_size [] = 0"
| "input_size (ReadError # r) = Suc (input_size r)"
| "input_size (Bytes b # r) = Suc (length b + input_size r)"

section \<open>Memory and machine integers\<close>

text \<open>
  A character array is the list of its bytes.  Loads, stores and block moves outside
  the array are undefined behaviour in C; the model returns \<open>None\<close> for them, and
  \<open>None\<close> propagates to the result of every function below.
\<close>

definition ld :: "char list \<Rightarrow> nat \<Rightarrow> char option" where
  "ld b i = (if i < length b then Some (b ! i) else None)"

definition st :: "char list \<Rightarrow> nat \<Rightarrow> char \<Rightarrow> char list option" where
  "st b i c = (if i < length b then Some (b[i := c]) else None)"

definition slice :: "char list \<Rightarrow> nat \<Rightarrow> nat \<Rightarrow> string option" where
  "slice b off n =
     (if n = 0 then Some []
      else if off + n \<le> length b then Some (take n (drop off b)) else None)"

definition memmove :: "char list \<Rightarrow> nat \<Rightarrow> nat \<Rightarrow> nat \<Rightarrow> char list option" where
  "memmove b dst src n =
     (if n = 0 then Some b
      else if src + n \<le> length b \<and> dst + n \<le> length b
      then Some (take dst b @ take n (drop src b) @ drop (dst + n) b)
      else None)"

definition strlen :: "char list \<Rightarrow> nat option" where
  "strlen b = (if NUL \<in> set b then Some (length (takeWhile (\<lambda>c. c \<noteq> NUL) b)) else None)"

text \<open>The C string that starts at the beginning of the array (what \<open>strdup\<close> copies).\<close>

definition cstr :: "char list \<Rightarrow> string option" where
  "cstr b = (if NUL \<in> set b then Some (takeWhile (\<lambda>c. c \<noteq> NUL) b) else None)"

text \<open>\<open>strncpy(b, src, n)\<close>: \<open>n\<close> bytes are stored, \<open>src\<close> padded with NUL bytes.\<close>

definition strncpy :: "char list \<Rightarrow> string \<Rightarrow> nat \<Rightarrow> char list option" where
  "strncpy b src n =
     (if n \<le> length b then Some (take n (src @ replicate n NUL) @ drop n b) else None)"

definition isspace :: "char \<Rightarrow> bool" where
  "isspace c \<longleftrightarrow> c = CHR '' '' \<or> (9 \<le> (of_char c :: nat) \<and> (of_char c :: nat) \<le> 13)"

text \<open>
  \<open>size_t\<close> is 64 bits wide and \<open>int\<close> 32 bits.  Fields of type \<open>size_t\<close> are natural
  numbers; where the source subtracts without a guard, or mixes \<open>int\<close> and \<open>size_t\<close>,
  the wrap-around is written out: \<open>u64\<close> is the value of a \<open>size_t\<close> expression and
  \<open>s32\<close> the conversion to \<open>int\<close>.
\<close>

definition u64 :: "int \<Rightarrow> int" where
  "u64 x = x mod 2 ^ 64"

definition s32 :: "int \<Rightarrow> int" where
  "s32 x = (x + 2 ^ 31) mod 2 ^ 32 - 2 ^ 31"

definition sz_sub :: "nat \<Rightarrow> nat \<Rightarrow> nat" where
  "sz_sub a b = nat (u64 (int a - int b))"

text \<open>The decimal digits that \<open>snprintf\<close> prints for \<open>%d\<close>.\<close>

function show_nat :: "nat \<Rightarrow> string" where
  "show_nat n =
     (if n < 10 then [''0123456789'' ! n]
      else show_nat (n div 10) @ [''0123456789'' ! (n mod 10)])"
  by pat_completeness auto
termination
  by (relation "measure (\<lambda>n. n)") auto

declare show_nat.simps [simp del]

definition show_int :: "int \<Rightarrow> string" where
  "show_int i = (if i < 0 then CHR ''-'' # show_nat (nat (- i)) else show_nat (nat i))"

section \<open>The editing state (struct clirState)\<close>

text \<open>
  \<open>buf\<close> is the array that the pointer \<open>cs->buf\<close> refers to, with the length the
  caller allocated; \<open>buflen\<close> is the size the caller announced.  The descriptor
  field \<open>fd\<close> is always the terminal and is left out.
\<close>

record clirState =
  buf :: "char list"
  buflen :: nat
  prompt :: string
  plen :: nat
  pos :: nat
  oldpos :: nat
  len :: nat
  cols :: nat
  maxrows :: nat
  history_index :: int
  word_pos :: nat

text \<open>\<open>getColumns\<close>; the argument is \<open>ws_col\<close> as the \<open>ioctl\<close> reports it, \<open>None\<close> when it fails.\<close>

definition getColumns :: "nat option \<Rightarrow> nat" where
  "getColumns ws = (case ws of None \<Rightarrow> 80 | Some c \<Rightarrow> if c = 0 then 80 else c)"

section \<open>Redrawing the line (clir.c, lines 377-515)\<close>

subsection \<open>Single-row mode\<close>

text \<open>
  The first loop of \<open>refreshSingleLine\<close>,
  \<^verbatim>\<open>while((plen+pos) >= cs->cols) { buf++; len--; pos--; }\<close>,
  on the local copies: \<open>off\<close> counts the increments of the pointer \<open>buf\<close>, and
  \<open>l\<close>, \<open>p\<close> are the \<open>size_t\<close> locals \<open>len\<close>, \<open>pos\<close>, which wrap below zero.  With
  zero columns the loop never ends; the result is then \<open>None\<close>.
\<close>

partial_function (option) slide_window ::
  "nat \<Rightarrow> nat \<Rightarrow> nat \<Rightarrow> int \<Rightarrow> int \<Rightarrow> (nat \<times> int \<times> int) option" where
  "slide_window pl c off l p =
     (if int c \<le> u64 (int pl + p)
      then slide_window pl c (off + 1) (u64 (l - 1)) (u64 (p - 1))
      else Some (off, l, p))"

declare slide_window.simps [code]

text \<open>The second loop, \<^verbatim>\<open>while (plen+len > cs->cols) { len--; }\<close>.\<close>

lemma u64_pred:
  assumes "0 < u64 (a + l)"
  shows "u64 (a + u64 (l - 1)) = u64 (a + l) - 1"
proof -
  have "u64 (a + u64 (l - 1)) = (a + l - 1) mod 2 ^ 64"
    by (simp add: u64_def mod_add_right_eq algebra_simps)
  also have "\<dots> = (u64 (a + l) - 1) mod 2 ^ 64"
    by (simp add: u64_def mod_diff_left_eq)
  also have "\<dots> = u64 (a + l) - 1"
  proof -
    have "u64 (a + l) < 2 ^ 64" by (simp add: u64_def)
    with assms show ?thesis by simp
  qed
  finally show ?thesis .
qed

function trunc_tail :: "nat \<Rightarrow> nat \<Rightarrow> int \<Rightarrow> int" where
  "trunc_tail pl c l =
     (if int c < u64 (int pl + l) then trunc_tail pl c (u64 (l - 1)) else l)"
  by pat_completeness auto
termination
proof (relation "measure (\<lambda>(pl, c, l). nat (u64 (int pl + l)))")
  show "wf (measure (\<lambda>(pl, c, l). nat (u64 (int pl + l))))" by simp
next
  fix pl c :: nat and l :: int
  assume "int c < u64 (int pl + l)"
  then have "0 < u64 (int pl + l)" by simp
  then show "((pl, c, u64 (l - 1)), pl, c, l) \<in> measure (\<lambda>(pl, c, l). nat (u64 (int pl + l)))"
    by (simp add: u64_pred)
qed

declare trunc_tail.simps [simp del]

text \<open>
  \<open>refreshSingleLine\<close> changes nothing in the state; it returns the terminal.  The
  third chunk is \<open>write(fd, buf, len)\<close> with the moved pointer and the cut length.
\<close>

definition refreshSingleLine :: "clirState \<Rightarrow> io \<Rightarrow> io option" where
  "refreshSingleLine cs t =
     (case slide_window (length (prompt cs)) (cols cs) 0 (int (len cs)) (int (pos cs)) of
        None \<Rightarrow> None
      | Some (off, l, p) \<Rightarrow>
          (let l' = trunc_tail (length (prompt cs)) (cols cs) l in
           map_option snd
             (write_seq t
                [Some (ESC # ''[0G''),
                 Some (prompt cs),
                 slice (buf cs) off (nat l'),
                 Some (ESC # ''[0K''),
                 Some (ESC # ''[0G'' @ ESC # ''[''
                       @ show_int (s32 (u64 (p + int (length (prompt cs))))) @ ''C'')])))"

subsection \<open>Multi-row mode\<close>

text \<open>
  The locals \<open>plen\<close>, \<open>rows\<close> and \<open>rpos\<close> of \<open>refreshMultiLine\<close>.  \<open>plen\<close> is an
  \<open>int\<close>; in \<open>plen+cs->len+cs->cols-1\<close> it is converted to \<open>size_t\<close> and the sum is
  taken modulo \<open>2^64\<close> (one \<open>u64\<close> around the whole sum gives the same value as
  wrapping after every operation), the division is unsigned, and the quotient is
  converted to \<open>int\<close>.
\<close>

definition ml_plen :: "clirState \<Rightarrow> int" where
  "ml_plen cs = s32 (int (length (prompt cs)))"

definition ml_rows :: "clirState \<Rightarrow> int" where
  "ml_rows cs = s32 (u64 (ml_plen cs + int (len cs) + int (cols cs) - 1) div int (cols cs))"

definition ml_rpos :: "clirState \<Rightarrow> int" where
  "ml_rpos cs = s32 (u64 (ml_plen cs + int (oldpos cs) + int (cols cs)) div int (cols cs))"

definition ml_rpos2 :: "clirState \<Rightarrow> int" where
  "ml_rpos2 cs = s32 (u64 (ml_plen cs + int (pos cs) + int (cols cs)) div int (cols cs))"

text \<open>The \<open>%\<close> of C on \<open>int\<close>: the remainder has the sign of the dividend.\<close>

definition c_rem :: "int \<Rightarrow> int \<Rightarrow> int" where
  "c_rem a b = sgn a * (\<bar>a\<bar> mod \<bar>b\<bar>)"

text \<open>\<open>if (rows > (int)cs->maxrows) cs->maxrows = rows;\<close>\<close>

definition raise_maxrows :: "int \<Rightarrow> clirState \<Rightarrow> clirState" where
  "raise_maxrows rows cs =
     (if rows > s32 (int (maxrows cs)) then cs\<lparr>maxrows := nat (u64 rows)\<rparr> else cs)"

text \<open>
  \<open>refreshMultiLine\<close> in its three runs of writes: clearing the rows used before and
  writing prompt and buffer; the forced newline at a row boundary, after which
  \<open>rows\<close> is incremented; moving the cursor.  Only when the last write has succeeded
  is \<open>oldpos\<close> updated.  A division by zero columns is undefined (\<open>None\<close>).  Arithmetic
  on \<open>int\<close> locals is exact (signed overflow is undefined in C).
\<close>

definition refreshMultiLine :: "clirState \<Rightarrow> io \<Rightarrow> (clirState \<times> io) option" where
  "refreshMultiLine cs t =
     (if cols cs = 0 then None
      else
        let rows = ml_rows cs;
            rpos = ml_rpos cs;
            old_rows = s32 (int (maxrows cs));
            cs1 = raise_maxrows rows cs
        in
        case write_seq t
               ((if old_rows - rpos > 0
                 then [Some (ESC # ''['' @ show_int (old_rows - rpos) @ ''B'')] else [])
                @ replicate (nat (old_rows - 1)) (Some (ESC # ''[0G'' @ ESC # ''[0K'' @ ESC # ''[1A''))
                @ [Some (ESC # ''[0G'' @ ESC # ''[0K''),
                   Some (prompt cs),
                   slice (buf cs) 0 (len cs)]) of
          None \<Rightarrow> None
        | Some (ok1, t1) \<Rightarrow>
            if \<not> ok1 then Some (cs1, t1)
            else
              (case (if pos cs \<noteq> 0 \<and> pos cs = len cs
                        \<and> u64 (int (pos cs) + ml_plen cs) mod int (cols cs) = 0
                     then (case write_seq t1 [Some [LF], Some (ESC # ''[0G'')] of
                             None \<Rightarrow> None
                           | Some (ok2, t2) \<Rightarrow>
                               if \<not> ok2 then Some (False, rows, cs1, t2)
                               else Some (True, rows + 1, raise_maxrows (rows + 1) cs1, t2))
                     else Some (True, rows, cs1, t1)) of
                 None \<Rightarrow> None
               | Some (ok2, rows2, cs2, t2) \<Rightarrow>
                   if \<not> ok2 then Some (cs2, t2)
                   else
                     (case write_seq t2
                             ((if rows2 - ml_rpos2 cs > 0
                               then [Some (ESC # ''['' @ show_int (rows2 - ml_rpos2 cs) @ ''A'')]
                               else [])
                              @ [if s32 (int (cols cs)) = 0 then None
                                 else Some (ESC # ''[''
                                        @ show_int (1 + c_rem (ml_plen cs + s32 (int (pos cs)))
                                                              (s32 (int (cols cs))))
                                        @ ''G'')]) of
                        None \<Rightarrow> None
                      | Some (ok3, t3) \<Rightarrow>
                          if ok3 then Some (cs2\<lparr>oldpos := pos cs2\<rparr>, t3) else Some (cs2, t3))))"

text \<open>\<open>refreshLine\<close>; the flag is the global \<open>mlmode\<close>.\<close>

definition refreshLine :: "bool \<Rightarrow> clirState \<Rightarrow> io \<Rightarrow> (clirState \<times> io) option" where
  "refreshLine ml cs t =
     (if ml then refreshMultiLine cs t
      else map_option (\<lambda>t'. (cs, t')) (refreshSingleLine cs t))"

section \<open>Editing operations (clir.c, lines 517-624)\<close>

text \<open>
  \<open>clirEditInsert\<close>.  The result is the return value, the state and the terminal.
  In the branch for the cursor at the end of the line, the two stores and the two
  increments happen before anything is written; a failed write of the single
  character gives \<open>-1\<close>.
\<close>

definition clirEditInsert ::
  "bool \<Rightarrow> clirState \<Rightarrow> char \<Rightarrow> io \<Rightarrow> (int \<times> clirState \<times> io) option" where
  "clirEditInsert ml cs c t =
     (if len cs < buflen cs then
        if len cs = pos cs then
          do {
            b1 \<leftarrow> st (buf cs) (pos cs) c;
            b2 \<leftarrow> st b1 (len cs + 1) NUL;
            let cs' = cs\<lparr>buf := b2, pos := pos cs + 1, len := len cs + 1\<rparr>;
            if \<not> ml \<and> plen cs' + len cs' < cols cs'
            then (case write_fd t [c] of (ok, t') \<Rightarrow> Some (if ok then 0 else - 1, cs', t'))
            else do { (cs'', t') \<leftarrow> refreshLine ml cs' t; Some (0, cs'', t') }
          }
        else
          do {
            b1 \<leftarrow> memmove (buf cs) (pos cs + 1) (pos cs) (sz_sub (len cs) (pos cs));
            b2 \<leftarrow> st b1 (pos cs) c;
            b3 \<leftarrow> st b2 (len cs + 1) NUL;
            (cs', t') \<leftarrow> refreshLine ml (cs\<lparr>buf := b3, len := len cs + 1, pos := pos cs + 1\<rparr>) t;
            Some (0, cs', t')
          }
      else Some (0, cs, t))"

definition clirEditMoveLeft :: "bool \<Rightarrow> clirState \<Rightarrow> io \<Rightarrow> (clirState \<times> io) option" where
  "clirEditMoveLeft ml cs t =
     (if pos cs > 0 then refreshLine ml (cs\<lparr>pos := pos cs - 1\<rparr>) t else Some (cs, t))"

definition clirEditMoveRight :: "bool \<Rightarrow> clirState \<Rightarrow> io \<Rightarrow> (clirState \<times> io) option" where
  "clirEditMoveRight ml cs t =
     (if pos cs \<noteq> len cs then refreshLine ml (cs\<lparr>pos := pos cs + 1\<rparr>) t else Some (cs, t))"

definition clirEditDelete :: "bool \<Rightarrow> clirState \<Rightarrow> io \<Rightarrow> (clirState \<times> io) option" where
  "clirEditDelete ml cs t =
     (if len cs > 0 \<and> pos cs < len cs then
        do {
          b1 \<leftarrow> memmove (buf cs) (pos cs) (pos cs + 1) (len cs - pos cs - 1);
          b2 \<leftarrow> st b1 (len cs - 1) NUL;
          refreshLine ml (cs\<lparr>buf := b2, len := len cs - 1\<rparr>) t
        }
      else Some (cs, t))"

definition clirEditBackspace :: "bool \<Rightarrow> clirState \<Rightarrow> io \<Rightarrow> (clirState \<times> io) option" where
  "clirEditBackspace ml cs t =
     (if pos cs > 0 \<and> len cs > 0 then
        do {
          b1 \<leftarrow> memmove (buf cs) (pos cs - 1) (pos cs) (sz_sub (len cs) (pos cs));
          b2 \<leftarrow> st b1 (len cs - 1) NUL;
          refreshLine ml (cs\<lparr>buf := b2, pos := pos cs - 1, len := len cs - 1\<rparr>) t
        }
      else Some (cs, t))"

text \<open>
  The two loops of \<open>clirEditDeletePrevWord\<close>, which move \<open>cs->pos\<close> back over
  spaces and then over the word before them.
\<close>

fun skip_spaces_back :: "char list \<Rightarrow> nat \<Rightarrow> nat option" where
  "skip_spaces_back b 0 = Some 0"
| "skip_spaces_back b (Suc p) =
     (case ld b p of
        None \<Rightarrow> None
      | Some c \<Rightarrow> if c = CHR '' '' then skip_spaces_back b p else Some (Suc p))"

fun skip_word_back :: "char list \<Rightarrow> nat \<Rightarrow> nat option" where
  "skip_word_back b 0 = Some 0"
| "skip_word_back b (Suc p) =
     (case ld b p of
        None \<Rightarrow> None
      | Some c \<Rightarrow> if c \<noteq> CHR '' '' then skip_word_back b p else Some (Suc p))"

definition clirEditDeletePrevWord ::
  "bool \<Rightarrow> clirState \<Rightarrow> io \<Rightarrow> (clirState \<times> io) option" where
  "clirEditDeletePrevWord ml cs t =
     do {
       p1 \<leftarrow> skip_spaces_back (buf cs) (pos cs);
       p2 \<leftarrow> skip_word_back (buf cs) p1;
       let diff = sz_sub (pos cs) p2;
       b \<leftarrow> memmove (buf cs) p2 (pos cs) (nat (u64 (int (len cs) - int (pos cs) + 1)));
       refreshLine ml (cs\<lparr>buf := b, pos := p2, len := sz_sub (len cs) diff\<rparr>) t
     }"

text \<open>
  \<open>clirEditHistoryNext\<close>.  The slot \<open>history_len - 1 - history_index\<close> must be a
  live slot; \<open>strdup\<close> is taken to succeed.
\<close>

definition LINENOISE_HISTORY_NEXT :: int where
  "LINENOISE_HISTORY_NEXT = 0"

definition LINENOISE_HISTORY_PREV :: int where
  "LINENOISE_HISTORY_PREV = 1"

definition clirEditHistoryNext ::
  "bool \<Rightarrow> int \<Rightarrow> clirState \<Rightarrow> hist \<Rightarrow> io \<Rightarrow> (clirState \<times> hist \<times> io) option" where
  "clirEditHistoryNext ml dir cs h t =
     (if history_len h > 1 then
        do {
          s \<leftarrow> cstr (buf cs);
          let slot = history_len h - 1 - history_index cs;
          if slot < 0 \<or> history_len h \<le> slot then None
          else
            let h1 = h\<lparr>history := (history h)[nat slot := s]\<rparr>;
                hi = history_index cs + (if dir = LINENOISE_HISTORY_PREV then 1 else - 1)
            in
            if hi < 0 then Some (cs\<lparr>history_index := 0\<rparr>, h1, t)
            else if hi \<ge> history_len h1
            then Some (cs\<lparr>history_index := history_len h1 - 1\<rparr>, h1, t)
            else
              do {
                b1 \<leftarrow> strncpy (buf cs) (history h1 ! nat (history_len h1 - 1 - hi)) (buflen cs);
                b2 \<leftarrow> (if buflen cs = 0 then None else st b1 (buflen cs - 1) NUL);
                n \<leftarrow> strlen b2;
                (cs', t') \<leftarrow> refreshLine ml
                   (cs\<lparr>buf := b2, len := n, pos := n, history_index := hi\<rparr>) t;
                Some (cs', h1, t')
              }
        }
      else Some (cs, h, t))"

section \<open>Completion (clir.c, lines 241-292)\<close>

text \<open>
  The inner loop of \<open>completeWord\<close> for one candidate: \<open>i\<close> is
  \<open>cs->word_pos + char_i\<close>, \<open>p\<close> is \<open>cs->pos\<close>.  The loop runs to the end of the
  candidate or of the typed span and does not stop at a mismatch.
\<close>

fun cand_valid :: "char list \<Rightarrow> nat \<Rightarrow> nat \<Rightarrow> string \<Rightarrow> bool option" where
  "cand_valid b i p [] = Some True"
| "cand_valid b i p (c # cand) =
     (if i < p then
        (case ld b i of
           None \<Rightarrow> None
         | Some x \<Rightarrow> map_option (\<lambda>r. c = x \<and> r) (cand_valid b (Suc i) p cand))
      else Some True)"

fun valid_flags :: "char list \<Rightarrow> nat \<Rightarrow> nat \<Rightarrow> string list \<Rightarrow> bool list option" where
  "valid_flags b i p [] = Some []"
| "valid_flags b i p (c # cc) =
     do { v \<leftarrow> cand_valid b i p c; vs \<leftarrow> valid_flags b i p cc; Some (v # vs) }"

text \<open>
  The characters that \<^verbatim>\<open>while (cc.cvec[valid_i][valid_p] != '\0')\<close> reads from the
  candidate, starting at index \<open>valid_p\<close>; an index beyond the terminator lies outside
  the string.
\<close>

definition cand_rest :: "string \<Rightarrow> nat \<Rightarrow> string option" where
  "cand_rest cand valid_p = (if valid_p \<le> length cand then Some (drop valid_p cand) else None)"

text \<open>Calls of \<open>clirEditInsert\<close> whose return values are discarded.\<close>

fun insert_all :: "bool \<Rightarrow> clirState \<Rightarrow> string \<Rightarrow> io \<Rightarrow> (clirState \<times> io) option" where
  "insert_all ml cs [] t = Some (cs, t)"
| "insert_all ml cs (c # s) t =
     (case clirEditInsert ml cs c t of
        None \<Rightarrow> None
      | Some (r, cs', t') \<Rightarrow> insert_all ml cs' s t')"

text \<open>
  \<open>completeWord\<close>.  The callback is a function from the C string it is handed to the
  list of candidates it adds with \<open>clirAddCompletion\<close>; it is handed \<open>cs->buf\<close>.
\<close>

definition completeWord ::
  "bool \<Rightarrow> (string \<Rightarrow> string list) \<Rightarrow> clirState \<Rightarrow> io \<Rightarrow> (int \<times> clirState \<times> io) option" where
  "completeWord ml completionCallback cs t =
     do {
       arg \<leftarrow> cstr (buf cs);
       let t0 = t\<lparr>cb_args := cb_args t @ [arg]\<rparr>;
       let cc = completionCallback arg;
       if cc = [] then Some (0, cs, clirBeep t0)
       else
         do {
           valid \<leftarrow> valid_flags (buf cs) (word_pos cs) (pos cs) cc;
           let valid_c = length (filter (\<lambda>v. v) valid);
           if valid_c = 1 then
             do {
               let valid_i = last (filter (\<lambda>i. valid ! i) [0 ..< length cc]);
               rest \<leftarrow> cand_rest (cc ! valid_i) (pos cs);
               (cs1, t1) \<leftarrow> insert_all ml cs rest t0;
               (r, cs2, t2) \<leftarrow> clirEditInsert ml cs1 (CHR '' '') t1;
               Some (0, cs2, t2)
             }
           else if valid_c > 1 then
             Some (1, cs,
                   printf
                     (foldl printf (printf t0 [CR, LF])
                        (map (\<lambda>c. CHR '' '' # CHR 0x27 # c @ [CHR 0x27])
                           (map fst (filter snd (zip cc valid)))))
                     [CR, LF])
           else Some (0, cs, t0)
         }
     }"

section \<open>The editing session (clir.c, lines 634-834)\<close>

text \<open>
  The four loops of the word jumps (control with the right or left arrow).  Each
  reads the byte under test before it compares \<open>cs.pos\<close> with its bound; the last
  one reads \<open>buf[cs.pos-1]\<close>, which at position 0 is a byte before the array.
\<close>

function fwd_nonspace :: "char list \<Rightarrow> nat \<Rightarrow> nat \<Rightarrow> nat option" where
  "fwd_nonspace b n p =
     (case ld b p of
        None \<Rightarrow> None
      | Some c \<Rightarrow> if \<not> isspace c \<and> p < n then fwd_nonspace b n (p + 1) else Some p)"
  by pat_completeness auto
termination
  by (relation "measure (\<lambda>(b, n, p). n - p)") auto

declare fwd_nonspace.simps [simp del]

function fwd_space :: "char list \<Rightarrow> nat \<Rightarrow> nat \<Rightarrow> nat option" where
  "fwd_space b n p =
     (case ld b p of
        None \<Rightarrow> None
      | Some c \<Rightarrow> if isspace c \<and> p \<le> n then fwd_space b n (p + 1) else Some p)"
  by pat_completeness auto
termination
  by (relation "measure (\<lambda>(b, n, p). n + 1 - p)") auto

declare fwd_space.simps [simp del]

function back_space :: "char list \<Rightarrow> nat \<Rightarrow> nat option" where
  "back_space b p =
     (case ld b p of
        None \<Rightarrow> None
      | Some c \<Rightarrow> if isspace c \<and> p > 0 then back_space b (p - 1) else Some p)"
  by pat_completeness auto
termination
  by (relation "measure (\<lambda>(b, p). p)") auto

declare back_space.simps [simp del]

function back_nonspace :: "char list \<Rightarrow> nat \<Rightarrow> nat option" where
  "back_nonspace b p =
     (if p = 0 then None
      else (case ld b (p - 1) of
              None \<Rightarrow> None
            | Some c \<Rightarrow> if \<not> isspace c \<and> p > 0 then back_nonspace b (p - 1) else Some p))"
  by pat_completeness auto
termination
  by (relation "measure (\<lambda>(b, p). p)") auto

declare back_nonspace.simps [simp del]

text \<open>
  \<open>history_len--; free(history[history_len]);\<close> on Enter and on control-D at an
  empty line.  Without a live entry the slot freed is \<open>history[-1]\<close>.
\<close>

definition history_drop_last :: "hist \<Rightarrow> hist option" where
  "history_drop_last h =
     (if history h = [] then None else Some (h\<lparr>history := butlast (history h)\<rparr>))"

text \<open>
  One pass through the loop body ends in \<open>break\<close> or \<open>continue\<close> (\<open>Continue\<close>) or in
  a \<open>return\<close> (\<open>Return\<close>, with the value returned).
\<close>

datatype step = Continue clirState hist io | Return int clirState hist io

definition continue :: "hist \<Rightarrow> (clirState \<times> io) option \<Rightarrow> step option" where
  "continue h r = map_option (\<lambda>(cs, t). Continue cs h t) r"

definition continue3 :: "(clirState \<times> hist \<times> io) option \<Rightarrow> step option" where
  "continue3 r = map_option (\<lambda>(cs, h, t). Continue cs h t) r"

text \<open>
  The loop body is modelled in two halves.  The first half follows the case labels
  of the \<open>switch\<close> and the nested tests on the escape sequence, including the
  \<open>read\<close> calls made on the way, and names the case body that is reached; the
  second half is the case bodies.  All reads of one pass come before its case body,
  so the order of effects is that of the source.  \<open>Ignore\<close> stands for the paths
  that reach a \<open>break\<close> without doing anything.
\<close>

datatype command =
    Complete
  | Enter
  | CtrlC
  | Backspace
  | CtrlD
  | CtrlT
  | MoveLeft
  | MoveRight
  | HistoryPrev
  | HistoryNext
  | DeleteKey
  | WordRight
  | WordLeft
  | HomeKey
  | EndKey
  | CtrlU
  | CtrlK
  | CtrlA
  | CtrlE
  | CtrlL
  | CtrlW
  | Insert char
  | Ignore

text \<open>
  \<open>case 27\<close>: the escape sequences.  The arrays \<open>seq\<close>, \<open>seq2\<close> and \<open>seq3\<close> are
  uninitialised locals; after a \<open>read\<close> that delivers fewer bytes than asked for, the
  elements not stored are indeterminate, and a comparison that reads one of them
  has no defined result (\<open>None\<close>).  The comparisons are made in the order, and with
  the short-circuit evaluation, of the source.
\<close>

definition decode_escape :: "input list \<Rightarrow> (command \<times> input list) option" where
  "decode_escape inp =
     (case read_fd 2 inp of (n, seq, inp1) \<Rightarrow>
        if n = - 1 then Some (Ignore, inp1)
        else
          (case ld seq 0 of
             None \<Rightarrow> None
           | Some s0 \<Rightarrow>
               if s0 = CHR 0x5B then
                 (case ld seq 1 of
                    None \<Rightarrow> None
                  | Some s1 \<Rightarrow>
                      if s1 = CHR 0x41 then Some (HistoryPrev, inp1)
                      else if s1 = CHR 0x42 then Some (HistoryNext, inp1)
                      else if s1 = CHR 0x43 then Some (MoveRight, inp1)
                      else if s1 = CHR 0x44 then Some (MoveLeft, inp1)
                      else if s1 = CHR 0x5A then Some (Ignore, inp1)
                      else if 48 < (of_char s1 :: nat) \<and> (of_char s1 :: nat) < 55 then
                        (case read_fd 2 inp1 of (n2, seq2, inp2) \<Rightarrow>
                           if n2 = - 1 then Some (Ignore, inp2)
                           else if s1 = CHR 0x33 then
                             (case ld seq2 0 of
                                None \<Rightarrow> None
                              | Some x \<Rightarrow>
                                  if x = CHR 0x7E then Some (DeleteKey, inp2)
                                  else Some (Ignore, inp2))
                           else if s1 = CHR 0x31 then
                             (case ld seq2 0 of
                                None \<Rightarrow> None
                              | Some x \<Rightarrow>
                                  if x = CHR 0x3B then
                                    (case read_fd 1 inp2 of (n3, seq3, inp3) \<Rightarrow>
                                       if n3 = - 1 then Some (Ignore, inp3)
                                       else
                                         (case ld seq2 1 of
                                            None \<Rightarrow> None
                                          | Some y \<Rightarrow>
                                              if y = CHR 0x35 then
                                                (case ld seq3 0 of
                                                   None \<Rightarrow> None
                                                 | Some z \<Rightarrow>
                                                     if z = CHR 0x43 then Some (WordRight, inp3)
                                                     else if z = CHR 0x44 then Some (WordLeft, inp3)
                                                     else Some (Ignore, inp3))
                                              else Some (Ignore, inp3)))
                                  else Some (Ignore, inp2))
                           else Some (Ignore, inp2))
                      else Some (Ignore, inp1))
               else if s0 = CHR 0x4F then
                 (case ld seq 1 of
                    None \<Rightarrow> None
                  | Some s1 \<Rightarrow>
                      if s1 = CHR 0x48 then Some (HomeKey, inp1)
                      else if s1 = CHR 0x46 then Some (EndKey, inp1)
                      else Some (Ignore, inp1))
               else Some (Ignore, inp1)))"

text \<open>
  The byte \<open>c\<close> read at the top of the loop: the test for the tab key, which applies
  when a completion callback is registered (\<open>cb_set\<close>), then the case labels.
\<close>

definition decode_key :: "bool \<Rightarrow> char \<Rightarrow> input list \<Rightarrow> (command \<times> input list) option" where
  "decode_key cb_set c inp =
     (if c = TAB \<and> cb_set then Some (Complete, inp)
      else if c = CR then Some (Enter, inp)
      else if c = CHR 0x03 then Some (CtrlC, inp)
      else if c = CHR 0x7F \<or> c = CHR 0x08 then Some (Backspace, inp)
      else if c = CHR 0x04 then Some (CtrlD, inp)
      else if c = CHR 0x14 then Some (CtrlT, inp)
      else if c = CHR 0x02 then Some (MoveLeft, inp)
      else if c = CHR 0x06 then Some (MoveRight, inp)
      else if c = CHR 0x10 then Some (HistoryPrev, inp)
      else if c = CHR 0x0E then Some (HistoryNext, inp)
      else if c = ESC then decode_escape inp
      else if c = CHR 0x15 then Some (CtrlU, inp)
      else if c = CHR 0x0B then Some (CtrlK, inp)
      else if c = CHR 0x01 then Some (CtrlA, inp)
      else if c = CHR 0x05 then Some (CtrlE, inp)
      else if c = CHR 0x0C then Some (CtrlL, inp)
      else if c = CHR 0x17 then Some (CtrlW, inp)
      else Some (Insert c, inp))"

text \<open>\<open>clirClearScreen\<close>: the result of the write is ignored.\<close>

definition clirClearScreen :: "io \<Rightarrow> io" where
  "clirClearScreen t = snd (write_fd t (ESC # ''[H'' @ ESC # ''[2J''))"

text \<open>
  The case bodies.  The local array \<open>buf\<close> of the source is the array \<open>cs.buf\<close>
  points to.  \<open>Complete\<close> is only reached with a callback registered.
\<close>

fun clirEdit_exec ::
  "bool \<Rightarrow> (string \<Rightarrow> string list) option \<Rightarrow> command \<Rightarrow> clirState \<Rightarrow> hist \<Rightarrow> io
     \<Rightarrow> step option" where
  "clirEdit_exec ml cb Complete cs h t =
     (case cb of
        None \<Rightarrow> None
      | Some completionCallback \<Rightarrow>
          (case completeWord ml completionCallback cs t of
             None \<Rightarrow> None
           | Some (r, cs1, t1) \<Rightarrow>
               if r < 0 then Some (Return (s32 (int (len cs1))) cs1 h t1)
               else if r = 0 then Some (Continue cs1 h t1)
               else continue h (refreshLine ml cs1 t1)))"
| "clirEdit_exec ml cb Enter cs h t =
     map_option (\<lambda>h'. Return (s32 (int (len cs))) cs h' t) (history_drop_last h)"
| "clirEdit_exec ml cb CtrlC cs h t = Some (Return (- 1) cs h t)"
| "clirEdit_exec ml cb Backspace cs h t = continue h (clirEditBackspace ml cs t)"
| "clirEdit_exec ml cb CtrlD cs h t =
     (if len cs > 0 then continue h (clirEditDelete ml cs t)
      else map_option (\<lambda>h'. Return (- 1) cs h' t) (history_drop_last h))"
| "clirEdit_exec ml cb CtrlT cs h t =
     (if pos cs > 0 \<and> pos cs < len cs then
        continue h
          (do {
             aux \<leftarrow> ld (buf cs) (pos cs - 1);
             x \<leftarrow> ld (buf cs) (pos cs);
             b1 \<leftarrow> st (buf cs) (pos cs - 1) x;
             b2 \<leftarrow> st b1 (pos cs) aux;
             refreshLine ml
               (cs\<lparr>buf := b2, pos := (if pos cs \<noteq> len cs - 1 then pos cs + 1 else pos cs)\<rparr>) t
           })
      else Some (Continue cs h t))"
| "clirEdit_exec ml cb MoveLeft cs h t = continue h (clirEditMoveLeft ml cs t)"
| "clirEdit_exec ml cb MoveRight cs h t = continue h (clirEditMoveRight ml cs t)"
| "clirEdit_exec ml cb HistoryPrev cs h t =
     continue3 (clirEditHistoryNext ml LINENOISE_HISTORY_PREV cs h t)"
| "clirEdit_exec ml cb HistoryNext cs h t =
     continue3 (clirEditHistoryNext ml LINENOISE_HISTORY_NEXT cs h t)"
| "clirEdit_exec ml cb DeleteKey cs h t = continue h (clirEditDelete ml cs t)"
| "clirEdit_exec ml cb WordRight cs h t =
     continue h
       (do {
          p1 \<leftarrow> fwd_nonspace (buf cs) (len cs) (pos cs);
          p2 \<leftarrow> fwd_space (buf cs) (len cs) p1;
          refreshLine ml (cs\<lparr>pos := p2\<rparr>) t
        })"
| "clirEdit_exec ml cb WordLeft cs h t =
     continue h
       (do {
          p1 \<leftarrow> back_space (buf cs) (if pos cs > 0 then pos cs - 1 else pos cs);
          p2 \<leftarrow> back_nonspace (buf cs) p1;
          refreshLine ml (cs\<lparr>pos := p2\<rparr>) t
        })"
| "clirEdit_exec ml cb HomeKey cs h t =
     (if pos cs > 0 then continue h (refreshLine ml (cs\<lparr>pos := 0\<rparr>) t)
      else Some (Continue cs h t))"
| "clirEdit_exec ml cb EndKey cs h t =
     (if pos cs \<noteq> len cs then continue h (refreshLine ml (cs\<lparr>pos := len cs\<rparr>) t)
      else Some (Continue cs h t))"
| "clirEdit_exec ml cb CtrlU cs h t =
     continue h
       (do { b \<leftarrow> st (buf cs) 0 NUL; refreshLine ml (cs\<lparr>buf := b, pos := 0, len := 0\<rparr>) t })"
| "clirEdit_exec ml cb CtrlK cs h t =
     continue h
       (do { b \<leftarrow> st (buf cs) (pos cs) NUL; refreshLine ml (cs\<lparr>buf := b, len := pos cs\<rparr>) t })"
| "clirEdit_exec ml cb CtrlA cs h t = continue h (refreshLine ml (cs\<lparr>pos := 0\<rparr>) t)"
| "clirEdit_exec ml cb CtrlE cs h t = continue h (refreshLine ml (cs\<lparr>pos := len cs\<rparr>) t)"
| "clirEdit_exec ml cb CtrlL cs h t = continue h (refreshLine ml cs (clirClearScreen t))"
| "clirEdit_exec ml cb CtrlW cs h t = continue h (clirEditDeletePrevWord ml cs t)"
| "clirEdit_exec ml cb (Insert c) cs h t =
     (case clirEditInsert ml cs c t of
        None \<Rightarrow> None
      | Some (r, cs1, t1) \<Rightarrow>
          if r \<noteq> 0 then Some (Return (- 1) cs1 h t1)
          else Some (Continue (if c = CHR '' '' then cs1\<lparr>word_pos := pos cs1\<rparr> else cs1) h t1))"
| "clirEdit_exec ml cb Ignore cs h t = Some (Continue cs h t)"

text \<open>The body of the \<open>while\<close> loop of \<open>clirEdit\<close> after a byte \<open>c\<close> has been read.\<close>

definition clirEdit_key ::
  "bool \<Rightarrow> (string \<Rightarrow> string list) option \<Rightarrow> char \<Rightarrow> clirState \<Rightarrow> hist \<Rightarrow> io \<Rightarrow> input list
     \<Rightarrow> (step \<times> input list) option" where
  "clirEdit_key ml cb c cs h t inp =
     (case decode_key (cb \<noteq> None) c inp of
        None \<Rightarrow> None
      | Some (k, inp') \<Rightarrow> map_option (\<lambda>s. (s, inp')) (clirEdit_exec ml cb k cs h t))"

text \<open>A \<open>read\<close> never adds input, and one that delivers a byte consumes it.\<close>

lemma read_fd_size: "read_fd n inp = (k, bs, inp') \<Longrightarrow> input_size inp' \<le> input_size inp"
  by (induction n inp rule: read_fd.induct) (auto split: if_splits)

lemma read_fd_consumes:
  "read_fd (Suc n) inp = (k, bs, inp') \<Longrightarrow> 0 < k \<Longrightarrow> input_size inp' < input_size inp"
  by (induction "Suc n" inp rule: read_fd.induct) (auto split: if_splits)

text \<open>Decoding a key never adds input: what is left after it is no longer than \<open>k\<close>.\<close>

definition input_le :: "nat \<Rightarrow> (command \<times> input list) option \<Rightarrow> bool" where
  "input_le k r \<longleftrightarrow> (case r of None \<Rightarrow> True | Some (s, i) \<Rightarrow> input_size i \<le> k)"

lemma input_le_Some: "input_size x \<le> k \<Longrightarrow> input_le k (Some (s, x))"
  by (simp add: input_le_def)

lemma input_le_None: "input_le k None"
  by (simp add: input_le_def)

lemma input_le_if:
  "(b \<Longrightarrow> input_le k r1) \<Longrightarrow> (\<not> b \<Longrightarrow> input_le k r2) \<Longrightarrow> input_le k (if b then r1 else r2)"
  by simp

lemma input_le_case:
  "input_le k a \<Longrightarrow> (\<And>v. input_le k (f v)) \<Longrightarrow> input_le k (case x of None \<Rightarrow> a | Some v \<Rightarrow> f v)"
  by (cases x) auto

lemmas input_le_intros = input_le_Some input_le_None input_le_if input_le_case

lemma decode_escape_input: "input_le (input_size inp) (decode_escape inp)"
proof -
  obtain n seq inp1 where r1: "read_fd 2 inp = (n, seq, inp1)"
    by (cases "read_fd 2 inp") auto
  obtain n2 seq2 inp2 where r2: "read_fd 2 inp1 = (n2, seq2, inp2)"
    by (cases "read_fd 2 inp1") auto
  obtain n3 seq3 inp3 where r3: "read_fd 1 inp2 = (n3, seq3, inp3)"
    by (cases "read_fd 1 inp2") auto
  have s1: "input_size inp1 \<le> input_size inp" using r1 by (rule read_fd_size)
  have "input_size inp2 \<le> input_size inp1" using r2 by (rule read_fd_size)
  with s1 have s2: "input_size inp2 \<le> input_size inp" by simp
  have "input_size inp3 \<le> input_size inp2" using r3 by (rule read_fd_size)
  with s2 have s3: "input_size inp3 \<le> input_size inp" by simp
  show ?thesis
    unfolding decode_escape_def r1 r2 r3 prod.case
    by (intro input_le_intros s1 s2 s3)
qed

lemma decode_key_input: "input_le (input_size inp) (decode_key cb_set c inp)"
  unfolding decode_key_def
  by (intro input_le_intros decode_escape_input order_refl)

lemma clirEdit_key_input:
  assumes "clirEdit_key ml cb c cs h t inp = Some (s, inp')"
  shows "input_size inp' \<le> input_size inp"
proof -
  from assms obtain k where "decode_key (cb \<noteq> None) c inp = Some (k, inp')"
    by (auto simp: clirEdit_key_def split: option.splits)
  with decode_key_input [of inp "cb \<noteq> None" c] show ?thesis
    by (simp add: input_le_def)
qed

lemma edit_loop_decreases:
  assumes "(k, bs, inp1) = read_fd (Suc 0) inp" and "\<not> k \<le> 0"
    and "clirEdit_key ml cb c cs h t inp1 = Some (s, inp')"
  shows "input_size inp' < input_size inp"
proof -
  from assms(1,2) have "input_size inp1 < input_size inp"
    by (auto dest: read_fd_consumes [OF sym])
  moreover from assms(3) have "input_size inp' \<le> input_size inp1"
    by (rule clirEdit_key_input)
  ultimately show ?thesis by simp
qed

text \<open>
  The \<open>while(1)\<close> loop of \<open>clirEdit\<close>.  It ends when \<open>read\<close> delivers nothing, or
  with a \<open>return\<close> in the body.  The result is the value returned, the final state,
  the history globals, the terminal and the input left.
\<close>

function edit_loop ::
  "bool \<Rightarrow> (string \<Rightarrow> string list) option \<Rightarrow> clirState \<Rightarrow> hist \<Rightarrow> io \<Rightarrow> input list
     \<Rightarrow> (int \<times> clirState \<times> hist \<times> io \<times> input list) option" where
  "edit_loop ml cb cs h t inp =
     (case read_fd (Suc 0) inp of (nread, bs, inp1) \<Rightarrow>
        if nread \<le> 0 then Some (s32 (int (len cs)), cs, h, t, inp1)
        else
          (case clirEdit_key ml cb (hd bs) cs h t inp1 of
             None \<Rightarrow> None
           | Some (Return r cs' h' t', inp') \<Rightarrow> Some (r, cs', h', t', inp')
           | Some (Continue cs' h' t', inp') \<Rightarrow> edit_loop ml cb cs' h' t' inp'))"
  by pat_completeness auto
termination
  apply (relation "measure (\<lambda>(ml, cb, cs, h, t, inp). input_size inp)")
   apply simp
  apply clarsimp
  apply (erule (2) edit_loop_decreases)
  done

declare edit_loop.simps [simp del]

text \<open>
  The state that \<open>clirEdit\<close> sets up before the loop.  \<open>cs.buflen\<close> receives the
  parameter \<open>buflen\<close> as passed; the later statement \<open>buflen--\<close> changes the
  parameter only, which is not read again.
\<close>

definition init_state :: "char list \<Rightarrow> nat \<Rightarrow> string \<Rightarrow> nat \<Rightarrow> clirState" where
  "init_state b n pr columns =
     \<lparr>buf = b, buflen = n, prompt = pr, plen = length pr, pos = 0, oldpos = 0, len = 0,
      cols = columns, maxrows = 0, history_index = 0, word_pos = 0\<rparr>"

text \<open>
  \<open>clirEdit\<close>.  \<open>b\<close> is the caller's array and \<open>n\<close> the size passed for it, \<open>ws\<close> the
  answer of the window-size query.  The allocations of the placeholder entry are
  taken to succeed.
\<close>

definition clirEdit ::
  "bool \<Rightarrow> (string \<Rightarrow> string list) option \<Rightarrow> nat option \<Rightarrow> char list \<Rightarrow> nat \<Rightarrow> string
     \<Rightarrow> hist \<Rightarrow> io \<Rightarrow> input list \<Rightarrow> (int \<times> clirState \<times> hist \<times> io \<times> input list) option" where
  "clirEdit ml cb ws b n pr h t inp =
     (case st b 0 NUL of
        None \<Rightarrow> None
      | Some b0 \<Rightarrow>
          let cs = init_state b0 n pr (getColumns ws);
              h1 = snd (clirHistoryAdd True True [] h)
          in (case write_fd t pr of (ok, t1) \<Rightarrow>
                if \<not> ok then Some (- 1, cs, h1, t1, inp)
                else edit_loop ml cb cs h1 t1 inp))"

text \<open>The completion callback of the demonstration program (example.c, lines 7-14).\<close>

definition completion :: "string \<Rightarrow> string list" where
  "completion b =
     (if b \<noteq> [] \<and> hd b = CHR ''h'' then [''hello'', ''hi'', ''hey'', ''howzit''] else [])"

section \<open>Observations\<close>

text \<open>A terminal on which every write succeeds and nothing has happened yet.\<close>

definition io0 :: io where
  "io0 = \<lparr>wres = [], tout = [], sout = [], beeps = 0, cb_args = []\<rparr>"

text \<open>The components of the result of a session.\<close>

fun ret_of :: "int \<times> clirState \<times> hist \<times> io \<times> input list \<Rightarrow> int" where
  "ret_of (r, cs, h, t, inp) = r"

fun state_of :: "int \<times> clirState \<times> hist \<times> io \<times> input list \<Rightarrow> clirState" where
  "state_of (r, cs, h, t, inp) = cs"

fun hist_of :: "int \<times> clirState \<times> hist \<times> io \<times> input list \<Rightarrow> hist" where
  "hist_of (r, cs, h, t, inp) = h"

fun io_of :: "int \<times> clirState \<times> hist \<times> io \<times> input list \<Rightarrow> io" where
  "io_of (r, cs, h, t, inp) = t"

fun rest_of :: "int \<times> clirState \<times> hist \<times> io \<times> input list \<Rightarrow> input list" where
  "rest_of (r, cs, h, t, inp) = inp"

text \<open>
  A session of the demonstration program: its callback, its prompt, 80 columns, the
  initial history, a terminal that works.  A line buffer of 16 bytes stands for the
  4096 bytes of \<open>clir\<close>; the lines typed below are far shorter than either.
\<close>

definition demo_session ::
  "bool \<Rightarrow> input list \<Rightarrow> (int \<times> clirState \<times> hist \<times> io \<times> input list) option" where
  "demo_session ml keys =
     clirEdit ml (Some completion) (Some 80) (replicate 16 NUL) 16 ''hello> '' hist0 io0 keys"

text \<open>The line that \<open>completeWord\<close> prints for a candidate.\<close>

definition listed :: "string \<Rightarrow> string" where
  "listed c = CHR '' '' # CHR 0x27 # c @ [CHR 0x27]"

text \<open>The text of the line: the first \<open>len\<close> bytes of the buffer.\<close>

definition line_of :: "clirState \<Rightarrow> string" where
  "line_of cs = take (len cs) (buf cs)"

text \<open>
  The text typed since the last whitespace boundary, in the words of the
  specification: the bytes from \<open>word_pos\<close> up to the cursor.
\<close>

definition current_word :: "clirState \<Rightarrow> string" where
  "current_word cs = take (pos cs - word_pos cs) (drop (word_pos cs) (buf cs))"

text \<open>
  The logical state of the edit: the state without \<open>oldpos\<close> and \<open>maxrows\<close>, the two
  fields that the redraw keeps for its own use.
\<close>

definition edit_state :: "clirState \<Rightarrow> clirState" where
  "edit_state cs = cs\<lparr>oldpos := 0, maxrows := 0\<rparr>"

text \<open>Buffer contents, length and cursor position.\<close>

definition line_state :: "clirState \<Rightarrow> char list \<times> nat \<times> nat" where
  "line_state cs = (buf cs, len cs, pos cs)"

text \<open>What a pass through the loop body leaves behind.\<close>

fun step_state :: "step \<Rightarrow> clirState" where
  "step_state (Continue cs h t) = cs"
| "step_state (Return r cs h t) = cs"

fun step_hist :: "step \<Rightarrow> hist" where
  "step_hist (Continue cs h t) = h"
| "step_hist (Return r cs h t) = h"

fun step_result :: "step \<Rightarrow> int option" where
  "step_result (Continue cs h t) = None"
| "step_result (Return r cs h t) = Some r"

fun step_io :: "step \<Rightarrow> io" where
  "step_io (Continue cs h t) = t"
| "step_io (Return r cs h t) = t"

text \<open>
  The case in which \<open>clirEditInsert\<close> writes the typed character by itself (cursor
  at the end of a line that has room, single-row mode, prompt and line shorter than
  the row) and the next write on the terminal fails.
\<close>

definition echo_fails :: "bool \<Rightarrow> clirState \<Rightarrow> io \<Rightarrow> bool" where
  "echo_fails ml cs t \<longleftrightarrow>
     len cs < buflen cs \<and> len cs = pos cs \<and> \<not> ml \<and> plen cs + (len cs + 1) < cols cs
     \<and> (case wres t of [] \<Rightarrow> False | ok # w \<Rightarrow> \<not> ok)"

text \<open>
  Sequences of the inserting and deleting operations, each applied to the state the
  one before has left (the return value of \<open>clirEditInsert\<close> is dropped).
\<close>

datatype edit = EditInsert char | EditDelete | EditBackspace | EditDeletePrevWord

fun apply_edit :: "bool \<Rightarrow> edit \<Rightarrow> clirState \<Rightarrow> io \<Rightarrow> (clirState \<times> io) option" where
  "apply_edit ml (EditInsert c) cs t = map_option snd (clirEditInsert ml cs c t)"
| "apply_edit ml EditDelete cs t = clirEditDelete ml cs t"
| "apply_edit ml EditBackspace cs t = clirEditBackspace ml cs t"
| "apply_edit ml EditDeletePrevWord cs t = clirEditDeletePrevWord ml cs t"

fun run_edits :: "bool \<Rightarrow> edit list \<Rightarrow> clirState \<Rightarrow> io \<Rightarrow> (clirState \<times> io) option" where
  "run_edits ml [] cs t = Some (cs, t)"
| "run_edits ml (e # es) cs t =
     (case apply_edit ml e cs t of
        None \<Rightarrow> None
      | Some (cs', t') \<Rightarrow> run_edits ml es cs' t')"

text \<open>
  The cursor lies within the line and the line within the announced size, which is a
  value of \<open>size_t\<close>.
\<close>

definition cursor_ok :: "clirState \<Rightarrow> bool" where
  "cursor_ok cs \<longleftrightarrow> pos cs \<le> len cs \<and> len cs \<le> buflen cs \<and> buflen cs < 2 ^ 64"

section \<open>Properties of the history\<close>

lemma clirHistoryAdd_ok: "hist_ok h \<Longrightarrow> hist_ok (snd (clirHistoryAdd m s line h))"
  by (cases "history h")
     (auto simp: clirHistoryAdd_def hist_ok_def history_len_def Let_def)

lemma clirHistorySetMaxLen_ok: "hist_ok h \<Longrightarrow> hist_ok (snd (clirHistorySetMaxLen m n h))"
  by (auto simp: clirHistorySetMaxLen_def hist_ok_def history_len_def Let_def)

lemma hist_step_ok: "hist_ok h \<Longrightarrow> hist_ok (hist_step x h)"
  by (cases x) (simp_all add: clirHistoryAdd_ok clirHistorySetMaxLen_ok)

lemma run_hist_ok: "hist_ok h \<Longrightarrow> hist_ok (run_hist xs h)"
  by (induction xs arbitrary: h) (simp_all add: hist_step_ok)

lemma hist0_ok: "hist_ok hist0"
  by (simp add: hist_ok_def hist0_def history_len_def LINENOISE_DEFAULT_HISTORY_MAX_LEN_def)

text \<open>
  Below capacity, adding a line equal to the most recent entry changes nothing but
  the allocation flag (which is already set when the store has an entry).
\<close>

lemma clirHistoryAdd_duplicate_below_capacity:
  assumes "hist_ok h" and "history h \<noteq> []" and "last (history h) = line"
    and "history_len h < history_max_len h"
  shows "clirHistoryAdd m s line h = (0, h)"
  using assms by (auto simp: clirHistoryAdd_def hist_ok_def history_len_def Let_def)

text \<open>
  C1.  A store at its capacity of two holds \<open>a\<close>, \<open>b\<close>; adding \<open>b\<close> again, the line
  equal to the most recent entry, is rejected (result 0) but the store is not left
  as it was: the oldest entry \<open>a\<close> has been evicted and the size has dropped to one.
\<close>

theorem clirHistoryAdd_duplicate_at_capacity_evicts:
  "clirHistoryAdd True True ''b''
     \<lparr>history_alloc = True, history = [''a'', ''b''], history_max_len = 2\<rparr>
   = (0, \<lparr>history_alloc = True, history = [''b''], history_max_len = 2\<rparr>)"
  by (simp add: clirHistoryAdd_def history_len_def)

text \<open>
  C7.  In every state reached from the initial globals by add and set-max-length
  operations (whatever the outcomes of their allocations), the number of entries is
  at most the capacity; and when such a store is full, adding a line that differs
  from the most recent entry drops exactly the oldest entry, keeps the others in
  order and appends the line.
\<close>

theorem history_within_capacity_and_evicts_oldest:
  assumes "h = run_hist xs hist0"
  shows "history_len h \<le> history_max_len h \<and>
         (history_len h = history_max_len h \<and> line \<noteq> last (history h) \<longrightarrow>
            clirHistoryAdd m True line h = (1, h\<lparr>history := tl (history h) @ [line]\<rparr>))"
proof -
  from assms have ok: "hist_ok h" by (simp add: run_hist_ok hist0_ok)
  then have bound: "history_len h \<le> history_max_len h" by (simp add: hist_ok_def)
  have evict: "clirHistoryAdd m True line h = (1, h\<lparr>history := tl (history h) @ [line]\<rparr>)"
    if full: "history_len h = history_max_len h" and new: "line \<noteq> last (history h)"
  proof (cases "history h")
    case Nil
    with ok full show ?thesis by (simp add: hist_ok_def history_len_def)
  next
    case (Cons e es)
    with ok have alloc: "history_alloc h" by (auto simp: hist_ok_def)
    from Cons new have "es \<noteq> [] \<Longrightarrow> last es \<noteq> line" by auto
    with Cons ok full alloc show ?thesis
      by (auto simp: clirHistoryAdd_def hist_ok_def history_len_def Let_def)
  qed
  from bound evict show ?thesis by blast
qed

theorem history_within_capacity_and_evicts_oldest_witness:
  "history_len (run_hist [SetMaxLen True 2, Add True True ''a'', Add True True ''b''] hist0)
     = history_max_len (run_hist [SetMaxLen True 2, Add True True ''a'', Add True True ''b''] hist0)
   \<and> ''c'' \<noteq> last (history (run_hist [SetMaxLen True 2, Add True True ''a'', Add True True ''b''] hist0))
   \<and> clirHistoryAdd True True ''c''
        (run_hist [SetMaxLen True 2, Add True True ''a'', Add True True ''b''] hist0)
      = (1, \<lparr>history_alloc = True, history = [''b'', ''c''], history_max_len = 2\<rparr>)"
  using history_within_capacity_and_evicts_oldest
    [of "run_hist [SetMaxLen True 2, Add True True ''a'', Add True True ''b''] hist0"
        "[SetMaxLen True 2, Add True True ''a'', Add True True ''b'']" "''c''" True]
  by (simp add: clirHistoryAdd_def clirHistorySetMaxLen_def hist0_def history_len_def
      LINENOISE_DEFAULT_HISTORY_MAX_LEN_def)

text \<open>
  C5.  With no file at the path, \<open>clirHistoryLoad\<close> leaves the history as it was
  and returns \<open>-1\<close>, the error result, where its header comment promises zero.
\<close>

theorem clirHistoryLoad_missing_file_returns_error:
  "clirHistoryLoad (\<lambda>path. None) ''history.txt'' hist0 = (-1, hist0)"
  by (simp add: clirHistoryLoad_def)

section \<open>Properties of redrawing\<close>

lemma s32_id: "0 \<le> x \<Longrightarrow> x < 2 ^ 31 \<Longrightarrow> s32 x = x"
  by (simp add: s32_def)

lemma u64_id: "0 \<le> x \<Longrightarrow> x < 2 ^ 64 \<Longrightarrow> u64 x = x"
  by (simp add: u64_def)

lemma ceiling_div_int:
  assumes c: "0 < (c::int)"
  shows "\<lceil>real_of_int n / real_of_int c\<rceil> = (n + c - 1) div c"
proof (rule ceiling_unique)
  define q where "q = (n + c - 1) div c"
  define r where "r = (n + c - 1) mod c"
  have eq: "n + c - 1 = q * c + r" by (simp add: q_def r_def)
  have r: "0 \<le> r" "r < c" using c by (simp_all add: r_def)
  have "q * c - c = n - 1 - r" using eq by (simp add: algebra_simps)
  with r have lo: "(q - 1) * c < n" by (simp add: algebra_simps)
  from eq r have hi: "n \<le> q * c" by simp
  from lo have "real_of_int ((q - 1) * c) < real_of_int n" by (simp only: of_int_less_iff)
  then have "(real_of_int q - 1) * real_of_int c < real_of_int n" by simp
  then show "real_of_int ((n + c - 1) div c) - 1 < real_of_int n / real_of_int c"
    using c by (simp add: q_def [symmetric] pos_less_divide_eq)
  from hi have "real_of_int n \<le> real_of_int (q * c)" by (simp only: of_int_le_iff)
  then show "real_of_int n / real_of_int c \<le> real_of_int ((n + c - 1) div c)"
    using c by (simp add: q_def [symmetric] pos_divide_le_eq)
qed

lemma ml_rows_exact:
  assumes "1 \<le> cols cs" and "length (prompt cs) + len cs + cols cs < 2 ^ 31"
  shows "ml_rows cs = (int (length (prompt cs) + len cs) + int (cols cs) - 1) div int (cols cs)"
proof -
  define n where "n = int (length (prompt cs) + len cs)"
  define c where "c = int (cols cs)"
  define p where "p = int (length (prompt cs))"
  have c: "1 \<le> c" using assms(1) by (simp add: c_def)
  have n: "0 \<le> n" "p \<le> n" "0 \<le> p" by (simp_all add: n_def p_def)
  have "int (length (prompt cs) + len cs + cols cs) < int (2 ^ 31)"
    using assms(2) by (simp only: of_nat_less_iff)
  then have b: "n + c < 2 ^ 31" by (simp add: n_def c_def)
  have pl: "ml_plen cs = p"
    unfolding ml_plen_def p_def [symmetric] using n b c by (intro s32_id) auto
  have u: "u64 (n + c - 1) = n + c - 1" using n b c by (intro u64_id) auto
  have "0 \<le> (n + c - 1) div c" using c n by (simp add: pos_imp_zdiv_nonneg_iff)
  moreover have "(n + c - 1) div c \<le> n + c - 1"
    using zdiv_mono2 [of "n + c - 1" 1 c] c n by simp
  then have "(n + c - 1) div c < 2 ^ 31" using b by simp
  ultimately have s: "s32 ((n + c - 1) div c) = (n + c - 1) div c" by (rule s32_id)
  have "ml_plen cs + int (len cs) + int (cols cs) - 1 = n + c - 1"
    by (simp add: pl p_def n_def c_def)
  then have "ml_rows cs = s32 (u64 (n + c - 1) div c)"
    by (simp only: ml_rows_def c_def)
  with u s show ?thesis by (simp add: n_def c_def)
qed

lemma ml_rpos_exact:
  assumes "1 \<le> cols cs" and "length (prompt cs) + oldpos cs + cols cs < 2 ^ 31"
  shows "ml_rpos cs = int (length (prompt cs) + oldpos cs) div int (cols cs) + 1"
proof -
  define n where "n = int (length (prompt cs) + oldpos cs)"
  define c where "c = int (cols cs)"
  define p where "p = int (length (prompt cs))"
  have c: "1 \<le> c" using assms(1) by (simp add: c_def)
  have n: "0 \<le> n" "p \<le> n" "0 \<le> p" by (simp_all add: n_def p_def)
  have "int (length (prompt cs) + oldpos cs + cols cs) < int (2 ^ 31)"
    using assms(2) by (simp only: of_nat_less_iff)
  then have b: "n + c < 2 ^ 31" by (simp add: n_def c_def)
  have pl: "ml_plen cs = p"
    unfolding ml_plen_def p_def [symmetric] using n b c by (intro s32_id) auto
  have u: "u64 (n + c) = n + c" using n b c by (intro u64_id) auto
  have "0 \<le> (n + c) div c" using c n by (simp add: pos_imp_zdiv_nonneg_iff)
  moreover have "(n + c) div c \<le> n + c"
    using zdiv_mono2 [of "n + c" 1 c] c n by simp
  then have "(n + c) div c < 2 ^ 31" using b by simp
  ultimately have s: "s32 ((n + c) div c) = (n + c) div c" by (rule s32_id)
  have "ml_plen cs + int (oldpos cs) + int (cols cs) = n + c"
    by (simp add: pl p_def n_def c_def)
  then have "ml_rpos cs = s32 (u64 (n + c) div c)"
    by (simp only: ml_rpos_def c_def)
  moreover have "(n + c) div c = n div c + 1" using c by simp
  ultimately show ?thesis using u s by (simp add: n_def c_def)
qed

lemma ceil_is_floor_succ:
  assumes c: "0 < (c::int)"
  shows "(m + c - 1) div c = m div c + 1 \<longleftrightarrow> \<not> c dvd m"
proof -
  define q where "q = m div c"
  define r where "r = m mod c"
  have m: "m = c * q + r" by (simp add: q_def r_def)
  have r: "0 \<le> r" "r < c" using c by (simp_all add: r_def)
  have dv: "c dvd m \<longleftrightarrow> r = 0" by (simp add: r_def dvd_eq_mod_eq_0)
  show ?thesis
  proof (cases "r = 0")
    case True
    have "m + c - 1 = c * q + (c - 1)" using m True by simp
    moreover have "0 \<le> c - 1" "c - 1 < c" using c by simp_all
    ultimately have "(m + c - 1) div c = q" by (rule int_div_pos_eq)
    with True dv show ?thesis by (simp add: q_def)
  next
    case False
    have "m + c - 1 = c * (q + 1) + (r - 1)" using m by (simp add: algebra_simps)
    moreover have "0 \<le> r - 1" "r - 1 < c" using r False by simp_all
    ultimately have "(m + c - 1) div c = q + 1" by (rule int_div_pos_eq)
    with False dv show ?thesis by (simp add: q_def)
  qed
qed

text \<open>
  C6, as it holds.  For at least one column, and a prompt, buffer and width whose sum
  is in the range of \<open>int\<close>, the multi-row refresh computes \<open>rows\<close> as the ceiling
  of \<open>(plen + len) / cols\<close>, and the previous cursor row \<open>rpos\<close> as the floor of
  \<open>(plen + oldpos) / cols\<close> plus one.  The latter is the ceiling exactly when
  \<open>plen + oldpos\<close> is not a multiple of the width.
\<close>

theorem multi_row_rows_and_cursor_row:
  assumes "1 \<le> cols cs"
    and "length (prompt cs) + len cs + cols cs < 2 ^ 31"
    and "length (prompt cs) + oldpos cs + cols cs < 2 ^ 31"
  shows "ml_rows cs = \<lceil>real (length (prompt cs) + len cs) / real (cols cs)\<rceil>
       \<and> ml_rpos cs = \<lfloor>real (length (prompt cs) + oldpos cs) / real (cols cs)\<rfloor> + 1
       \<and> (ml_rpos cs = \<lceil>real (length (prompt cs) + oldpos cs) / real (cols cs)\<rceil>
            \<longleftrightarrow> \<not> cols cs dvd length (prompt cs) + oldpos cs)"
proof -
  define c where "c = int (cols cs)"
  define m where "m = int (length (prompt cs) + oldpos cs)"
  define n where "n = int (length (prompt cs) + len cs)"
  have c: "0 < c" using assms(1) by (simp add: c_def)
  have rc: "real (cols cs) = real_of_int c" by (simp add: c_def)
  have rm: "real (length (prompt cs) + oldpos cs) = real_of_int m" by (simp add: m_def)
  have rn: "real (length (prompt cs) + len cs) = real_of_int n" by (simp add: n_def)
  have rows: "ml_rows cs = (n + c - 1) div c"
    using ml_rows_exact [OF assms(1,2)] by (simp add: n_def c_def)
  have rpos: "ml_rpos cs = m div c + 1"
    using ml_rpos_exact [OF assms(1,3)] by (simp add: m_def c_def)
  have dv: "cols cs dvd length (prompt cs) + oldpos cs \<longleftrightarrow> c dvd m"
    unfolding c_def m_def by (rule int_dvd_int_iff [symmetric])
  show ?thesis
    unfolding rc rm rn dv rows rpos
    using ceiling_div_int [OF c, of n] ceiling_div_int [OF c, of m]
      floor_divide_of_int_eq [of m c, where ?'a = real]
      ceil_is_floor_succ [OF c, of m]
    by auto
qed

theorem multi_row_rows_and_cursor_row_witness:
  "ml_rows (init_state (''abcdefghij'' @ [NUL]) 11 ''hello> '' 5\<lparr>len := 10, oldpos := 4\<rparr>) = 4
   \<and> ml_rpos (init_state (''abcdefghij'' @ [NUL]) 11 ''hello> '' 5\<lparr>len := 10, oldpos := 4\<rparr>) = 3"
  using multi_row_rows_and_cursor_row
    [of "init_state (''abcdefghij'' @ [NUL]) 11 ''hello> '' 5\<lparr>len := 10, oldpos := 4\<rparr>"]
  by (simp add: init_state_def) 

text \<open>
  C6, as stated, fails for the cursor row: with the seven-character prompt, the
  previous cursor position 73 and 80 columns, \<open>rpos\<close> is 2 while the ceiling of
  \<open>80 / 80\<close> is 1.
\<close>

theorem cursor_row_is_not_ceiling:
  "ml_rpos (init_state (replicate 100 NUL) 100 ''hello> '' 80\<lparr>oldpos := 73\<rparr>) = 2
   \<and> \<lceil>real (length ''hello> '' + 73) / real (80::nat)\<rceil> = 1"
  by (simp add: ml_rpos_def ml_plen_def init_state_def s32_def u64_def)


section \<open>Redrawing leaves the edit alone\<close>

text \<open>
  Whatever the writes do, a redraw changes no field of the state except \<open>oldpos\<close>
  and \<open>maxrows\<close>.
\<close>

lemma edit_state_eq_iff:
  "edit_state a = edit_state b \<longleftrightarrow>
     buf a = buf b \<and> buflen a = buflen b \<and> prompt a = prompt b \<and> plen a = plen b
     \<and> pos a = pos b \<and> len a = len b \<and> cols a = cols b
     \<and> history_index a = history_index b \<and> word_pos a = word_pos b"
  by (cases a, cases b) (auto simp: edit_state_def)

lemma edit_state_raise_maxrows: "edit_state (raise_maxrows r cs) = edit_state cs"
  by (simp add: edit_state_def raise_maxrows_def)

lemma edit_state_oldpos: "edit_state (cs\<lparr>oldpos := p\<rparr>) = edit_state cs"
  by (simp add: edit_state_def)

lemma edit_state_display: "edit_state (cs\<lparr>oldpos := p, maxrows := m\<rparr>) = edit_state cs"
  by (simp add: edit_state_def)

lemma edit_state_eqD:
  "edit_state a = edit_state b \<Longrightarrow> b = a\<lparr>oldpos := oldpos b, maxrows := maxrows b\<rparr>"
  by (cases a, cases b) (auto simp: edit_state_def)

lemma edit_state_line_state: "edit_state a = edit_state b \<Longrightarrow> line_state a = line_state b"
  by (simp add: edit_state_eq_iff line_state_def)

lemma refreshMultiLine_edit_state:
  "refreshMultiLine cs t = Some (cs', t') \<Longrightarrow> edit_state cs' = edit_state cs"
  unfolding refreshMultiLine_def Let_def
  by (auto simp: edit_state_raise_maxrows edit_state_oldpos simp del: write_seq.simps
      split: if_splits option.splits prod.splits)

lemma refreshLine_edit_state:
  "refreshLine ml cs t = Some (cs', t') \<Longrightarrow> edit_state cs' = edit_state cs"
  by (auto simp: refreshLine_def dest: refreshMultiLine_edit_state split: if_splits)

lemma refreshLine_fields:
  assumes "refreshLine ml cs t = Some (cs', t')"
  shows "buf cs' = buf cs" "buflen cs' = buflen cs" "prompt cs' = prompt cs" "plen cs' = plen cs"
    "pos cs' = pos cs" "len cs' = len cs" "cols cs' = cols cs"
    "history_index cs' = history_index cs" "word_pos cs' = word_pos cs"
  using refreshLine_edit_state [OF assms] by (simp_all add: edit_state_eq_iff)

lemma refreshLine_cursor:
  "refreshLine ml cs t = Some (cs', t')
     \<Longrightarrow> pos cs' = pos cs \<and> len cs' = len cs \<and> buflen cs' = buflen cs"
  by (simp add: refreshLine_fields)

lemma refreshLine_buflen: "refreshLine ml cs t = Some (cs', t') \<Longrightarrow> buflen cs' = buflen cs"
  by (rule refreshLine_fields(2))

text \<open>
  Two runs of one operation, from states with the same logical content and on any
  two terminals, end in states with the same logical content.
\<close>

lemma clirEditBackspace_es:
  assumes "clirEditBackspace ml cs1 t1 = Some (a, t1')"
    and "clirEditBackspace ml cs2 t2 = Some (b, t2')"
    and "edit_state cs1 = edit_state cs2"
  shows "edit_state a = edit_state b"
proof -
  from assms(3) obtain p m where cs2: "cs2 = cs1\<lparr>oldpos := p, maxrows := m\<rparr>"
    by (blast dest: edit_state_eqD)
  show ?thesis
    using assms(1,2) unfolding clirEditBackspace_def cs2
    by (auto simp: bind_eq_Some_conv edit_state_def split: if_splits
        dest!: refreshLine_edit_state)
qed

lemma clirEditInsert_es:
  assumes "clirEditInsert ml cs1 c t1 = Some (r1, a, t1')"
    and "clirEditInsert ml cs2 c t2 = Some (r2, b, t2')"
    and "edit_state cs1 = edit_state cs2"
  shows "edit_state a = edit_state b"
proof -
  from assms(3) obtain p m where cs2: "cs2 = cs1\<lparr>oldpos := p, maxrows := m\<rparr>"
    by (blast dest: edit_state_eqD)
  show ?thesis
    using assms(1,2) unfolding clirEditInsert_def cs2
    by (auto simp: bind_eq_Some_conv edit_state_def Let_def split: if_splits prod.splits
        dest!: refreshLine_edit_state)
qed

lemma clirEditMoveLeft_es:
  assumes "clirEditMoveLeft ml cs1 t1 = Some (a, t1')"
    and "clirEditMoveLeft ml cs2 t2 = Some (b, t2')"
    and "edit_state cs1 = edit_state cs2"
  shows "edit_state a = edit_state b"
proof -
  from assms(3) obtain p m where cs2: "cs2 = cs1\<lparr>oldpos := p, maxrows := m\<rparr>"
    by (blast dest: edit_state_eqD)
  show ?thesis
    using assms(1,2) unfolding clirEditMoveLeft_def cs2
    by (auto simp: bind_eq_Some_conv edit_state_def Let_def  split: if_splits prod.splits
        dest!: refreshLine_edit_state)
qed

lemma clirEditMoveRight_es:
  assumes "clirEditMoveRight ml cs1 t1 = Some (a, t1')"
    and "clirEditMoveRight ml cs2 t2 = Some (b, t2')"
    and "edit_state cs1 = edit_state cs2"
  shows "edit_state a = edit_state b"
proof -
  from assms(3) obtain p m where cs2: "cs2 = cs1\<lparr>oldpos := p, maxrows := m\<rparr>"
    by (blast dest: edit_state_eqD)
  show ?thesis
    using assms(1,2) unfolding clirEditMoveRight_def cs2
    by (auto simp: bind_eq_Some_conv edit_state_def Let_def  split: if_splits prod.splits
        dest!: refreshLine_edit_state)
qed

lemma clirEditDelete_es:
  assumes "clirEditDelete ml cs1 t1 = Some (a, t1')"
    and "clirEditDelete ml cs2 t2 = Some (b, t2')"
    and "edit_state cs1 = edit_state cs2"
  shows "edit_state a = edit_state b"
proof -
  from assms(3) obtain p m where cs2: "cs2 = cs1\<lparr>oldpos := p, maxrows := m\<rparr>"
    by (blast dest: edit_state_eqD)
  show ?thesis
    using assms(1,2) unfolding clirEditDelete_def cs2
    by (auto simp: bind_eq_Some_conv edit_state_def Let_def  split: if_splits prod.splits
        dest!: refreshLine_edit_state)
qed

lemma clirEditDeletePrevWord_es:
  assumes "clirEditDeletePrevWord ml cs1 t1 = Some (a, t1')"
    and "clirEditDeletePrevWord ml cs2 t2 = Some (b, t2')"
    and "edit_state cs1 = edit_state cs2"
  shows "edit_state a = edit_state b"
proof -
  from assms(3) obtain p m where cs2: "cs2 = cs1\<lparr>oldpos := p, maxrows := m\<rparr>"
    by (blast dest: edit_state_eqD)
  show ?thesis
    using assms(1,2) unfolding clirEditDeletePrevWord_def cs2
    by (auto simp: bind_eq_Some_conv edit_state_def Let_def  split: if_splits prod.splits
        dest!: refreshLine_edit_state)
qed

lemma clirEditHistoryNext_es:
  assumes "clirEditHistoryNext ml dir cs1 h t1 = Some (a, h1, t1')"
    and "clirEditHistoryNext ml dir cs2 h t2 = Some (b, h2, t2')"
    and "edit_state cs1 = edit_state cs2"
  shows "edit_state a = edit_state b \<and> h1 = h2"
proof -
  from assms(3) obtain p m where cs2: "cs2 = cs1\<lparr>oldpos := p, maxrows := m\<rparr>"
    by (blast dest: edit_state_eqD)
  show ?thesis
    using assms(1,2) unfolding clirEditHistoryNext_def cs2
    by (auto simp: bind_eq_Some_conv edit_state_def Let_def split: if_splits prod.splits
        dest!: refreshLine_edit_state)
qed

lemma insert_all_es:
  "insert_all ml cs1 s t1 = Some (a, t1') \<Longrightarrow> insert_all ml cs2 s t2 = Some (b, t2')
     \<Longrightarrow> edit_state cs1 = edit_state cs2 \<Longrightarrow> edit_state a = edit_state b"
proof (induction s arbitrary: cs1 cs2 t1 t2)
  case Nil
  then show ?case by simp
next
  case (Cons c s)
  from Cons.prems(1) obtain r1 x1 u1 where
    i1: "clirEditInsert ml cs1 c t1 = Some (r1, x1, u1)" and n1: "insert_all ml x1 s u1 = Some (a, t1')"
    by (auto split: option.splits)
  from Cons.prems(2) obtain r2 x2 u2 where
    i2: "clirEditInsert ml cs2 c t2 = Some (r2, x2, u2)" and n2: "insert_all ml x2 s u2 = Some (b, t2')"
    by (auto split: option.splits)
  from i1 i2 Cons.prems(3) have "edit_state x1 = edit_state x2" by (rule clirEditInsert_es)
  with n1 n2 show ?case by (rule Cons.IH)
qed

lemma completeWord_es:
  assumes "completeWord ml f cs1 t1 = Some (r1, a, t1')"
    and "completeWord ml f cs2 t2 = Some (r2, b, t2')"
    and "edit_state cs1 = edit_state cs2"
  shows "edit_state a = edit_state b \<and> r1 = r2"
proof -
  from assms(3) obtain p m where cs2: "cs2 = cs1\<lparr>oldpos := p, maxrows := m\<rparr>"
    by (blast dest: edit_state_eqD)
  from assms(1) obtain arg where arg: "cstr (buf cs1) = Some arg"
    by (auto simp: completeWord_def bind_eq_Some_conv)
  show ?thesis
  proof (cases "f arg = []")
    case True
    with assms(1,2) arg show ?thesis
      unfolding completeWord_def cs2 by (auto simp: edit_state_display)
  next
    case False
    with assms(1) arg obtain valid where
      valid: "valid_flags (buf cs1) (word_pos cs1) (pos cs1) (f arg) = Some valid"
      by (auto simp: completeWord_def bind_eq_Some_conv Let_def)
    consider (one) "length (filter (\<lambda>v. v) valid) = 1" | (many) "1 < length (filter (\<lambda>v. v) valid)"
      | (none) "length (filter (\<lambda>v. v) valid) = 0"
      by linarith
    then show ?thesis
    proof cases
      case one
      let ?i = "last (filter (\<lambda>i. valid ! i) [0 ..< length (f arg)])"
      from assms(1) arg False valid one obtain rest x1 u1 q1 where
        rest: "cand_rest (f arg ! ?i) (pos cs1) = Some rest"
        and i1: "insert_all ml cs1 rest (t1\<lparr>cb_args := cb_args t1 @ [arg]\<rparr>) = Some (x1, u1)"
        and e1: "clirEditInsert ml x1 (CHR '' '') u1 = Some (q1, a, t1')" and r1: "r1 = 0"
        unfolding completeWord_def
        by (auto simp: bind_eq_Some_conv Let_def split: prod.splits)
      from assms(2) arg False valid one rest obtain x2 u2 q2 where
        i2: "insert_all ml cs2 rest (t2\<lparr>cb_args := cb_args t2 @ [arg]\<rparr>) = Some (x2, u2)"
        and e2: "clirEditInsert ml x2 (CHR '' '') u2 = Some (q2, b, t2')" and r2: "r2 = 0"
        unfolding completeWord_def cs2
        by (auto simp: bind_eq_Some_conv Let_def split: prod.splits)
      from i1 i2 assms(3) have "edit_state x1 = edit_state x2" by (rule insert_all_es)
      with e1 e2 have "edit_state a = edit_state b" by (rule clirEditInsert_es)
      with r1 r2 show ?thesis by simp
    next
      case many
      with assms(1,2) arg False valid show ?thesis
        unfolding completeWord_def cs2 by (auto simp: edit_state_display)
    next
      case none
      with assms(1,2) arg False valid show ?thesis
        unfolding completeWord_def cs2 by (auto simp: edit_state_display)
    qed
  qed
qed

lemma clirEditInsert_result:
  "clirEditInsert ml cs c t = Some (r, cs', t') \<Longrightarrow> r = (if echo_fails ml cs t then - 1 else 0)"
  unfolding clirEditInsert_def echo_fails_def
  by (auto simp: bind_eq_Some_conv Let_def write_fd_def split: if_splits prod.splits list.splits)

text \<open>\<open>completeWord\<close> returns 0 or 1, whatever the calls of \<open>clirEditInsert\<close> in it return.\<close>

lemma completeWord_result:
  assumes "completeWord ml f cs t = Some (r, cs', t')"
  shows "r = 0 \<or> r = 1"
  using assms unfolding completeWord_def
  by (auto simp: bind_eq_Some_conv Let_def split: if_splits prod.splits)

text \<open>
  C2, as it holds.  Take any case body of the loop and run it twice, from states with
  the same logical content (equal apart from the renderer's \<open>oldpos\<close> and
  \<open>maxrows\<close>), on two terminals whose writes fail or succeed in any pattern.  If both
  runs are defined, they leave the same buffer, length and cursor and the same history.

  For every key but a typed character they also leave the same logical state and end
  the pass the same way, so no failed write is reported.  Tab completion is among these
  keys: \<open>completeWord\<close> discards what \<open>clirEditInsert\<close> returns, so a failed echo of a
  completed character is swallowed like a failed redraw, and the pass never returns.

  A typed character (the \<open>default\<close> case of \<open>clirEdit\<close>) is the exception: the pass
  ends in \<open>return -1\<close> exactly when the single-character echo of \<open>clirEditInsert\<close>
  fails, and continues otherwise.  Whenever the two runs end the same way, they leave
  the same logical state here too; a run that returns and one that continues after a
  typed space differ in \<open>word_pos\<close>, which only the run that continues updates.
\<close>

theorem write_failures_leave_edit_state:
  assumes "clirEdit_exec ml cb k cs1 h t1 = Some s1"
    and "clirEdit_exec ml cb k cs2 h t2 = Some s2"
    and "edit_state cs1 = edit_state cs2"
  shows "line_state (step_state s1) = line_state (step_state s2) \<and> step_hist s1 = step_hist s2
       \<and> ((\<forall>c. k \<noteq> Insert c) \<longrightarrow>
             edit_state (step_state s1) = edit_state (step_state s2)
             \<and> step_result s1 = step_result s2)
       \<and> (k = Complete \<longrightarrow> step_result s1 = None)
       \<and> (\<forall>c. k = Insert c \<longrightarrow>
             step_result s1 = (if echo_fails ml cs1 t1 then Some (- 1) else None)
             \<and> (step_result s1 = step_result s2 \<longrightarrow>
                  edit_state (step_state s1) = edit_state (step_state s2)))"
proof -
  from assms(3) obtain p m where cs2: "cs2 = cs1\<lparr>oldpos := p, maxrows := m\<rparr>"
    by (blast dest: edit_state_eqD)
  note defs = continue_def continue3_def bind_eq_Some_conv edit_state_display
  have "(\<forall>c. k \<noteq> Insert c) \<longrightarrow>
      edit_state (step_state s1) = edit_state (step_state s2) \<and> step_hist s1 = step_hist s2
      \<and> step_result s1 = step_result s2"
  proof (cases k)
    case Complete
    from assms(1) Complete obtain f r1 a u1 where
      f: "cb = Some f" and c1: "completeWord ml f cs1 t1 = Some (r1, a, u1)"
      by (auto split: option.splits)
    from assms(2) Complete f obtain r2 b u2 where
      c2: "completeWord ml f cs2 t2 = Some (r2, b, u2)"
      by (auto split: option.splits)
    from c1 c2 assms(3) have e: "edit_state a = edit_state b" and r: "r1 = r2"
      using completeWord_es by blast+
    from assms(1) Complete f c1
    have s1: "edit_state (step_state s1) = edit_state a \<and> step_hist s1 = h
        \<and> step_result s1 = (if r1 < 0 then Some (s32 (int (len a))) else None)"
      by (auto simp: defs split: if_splits dest: refreshLine_edit_state)
    from assms(2) Complete f c2
    have s2: "edit_state (step_state s2) = edit_state b \<and> step_hist s2 = h
        \<and> step_result s2 = (if r2 < 0 then Some (s32 (int (len b))) else None)"
      by (auto simp: defs split: if_splits dest: refreshLine_edit_state)
    from e have "len a = len b" by (simp add: edit_state_eq_iff)
    with s1 s2 e r show ?thesis by simp
  next
    case Enter
    with assms show ?thesis by (auto simp: defs history_drop_last_def edit_state_eq_iff split: if_splits)
  next
    case CtrlC
    with assms show ?thesis by auto
  next
    case Backspace
    with assms show ?thesis by (auto simp: defs dest: clirEditBackspace_es)
  next
    case CtrlD
    with assms show ?thesis
      by (auto simp: defs history_drop_last_def edit_state_eq_iff split: if_splits dest: clirEditDelete_es)
  next
    case CtrlT
    with assms(1,2) show ?thesis unfolding cs2
      by (auto simp: defs edit_state_def split: if_splits dest!: refreshLine_edit_state)
  next
    case MoveLeft
    with assms show ?thesis by (auto simp: defs dest: clirEditMoveLeft_es)
  next
    case MoveRight
    with assms show ?thesis by (auto simp: defs dest: clirEditMoveRight_es)
  next
    case HistoryPrev
    with assms show ?thesis by (auto simp: defs dest: clirEditHistoryNext_es)
  next
    case HistoryNext
    with assms show ?thesis by (auto simp: defs dest: clirEditHistoryNext_es)
  next
    case DeleteKey
    with assms show ?thesis by (auto simp: defs dest: clirEditDelete_es)
  next
    case WordRight
    with assms(1,2) show ?thesis unfolding cs2
      by (auto simp: defs edit_state_def split: if_splits dest!: refreshLine_edit_state)
  next
    case WordLeft
    with assms(1,2) show ?thesis unfolding cs2
      by (auto simp: defs edit_state_def split: if_splits dest!: refreshLine_edit_state)
  next
    case HomeKey
    with assms(1,2) show ?thesis unfolding cs2
      by (auto simp: defs edit_state_def split: if_splits dest!: refreshLine_edit_state)
  next
    case EndKey
    with assms(1,2) show ?thesis unfolding cs2
      by (auto simp: defs edit_state_def split: if_splits dest!: refreshLine_edit_state)
  next
    case CtrlU
    with assms(1,2) show ?thesis unfolding cs2
      by (auto simp: defs edit_state_def split: if_splits dest!: refreshLine_edit_state)
  next
    case CtrlK
    with assms(1,2) show ?thesis unfolding cs2
      by (auto simp: defs edit_state_def split: if_splits dest!: refreshLine_edit_state)
  next
    case CtrlA
    with assms(1,2) show ?thesis unfolding cs2
      by (auto simp: defs edit_state_def split: if_splits dest!: refreshLine_edit_state)
  next
    case CtrlE
    with assms(1,2) show ?thesis unfolding cs2
      by (auto simp: defs edit_state_def split: if_splits dest!: refreshLine_edit_state)
  next
    case CtrlL
    with assms(1,2) show ?thesis unfolding cs2
      by (auto simp: defs edit_state_def split: if_splits dest!: refreshLine_edit_state)
  next
    case CtrlW
    with assms show ?thesis by (auto simp: defs dest: clirEditDeletePrevWord_es)
  next
    case (Insert c)
    then show ?thesis by simp
  next
    case Ignore
    with assms show ?thesis by auto
  qed
  moreover have "k = Complete \<longrightarrow> step_result s1 = None"
  proof
    assume k: "k = Complete"
    from assms(1) k obtain f r1 a u1 where
      f: "cb = Some f" and c1: "completeWord ml f cs1 t1 = Some (r1, a, u1)"
      by (auto split: option.splits)
    from c1 have "r1 = 0 \<or> r1 = 1" by (rule completeWord_result)
    with assms(1) k f c1 show "step_result s1 = None"
      by (auto simp: continue_def)
  qed
  moreover have "(\<exists>c. k = Insert c) \<longrightarrow>
      line_state (step_state s1) = line_state (step_state s2) \<and> step_hist s1 = step_hist s2
      \<and> step_result s1 = (if echo_fails ml cs1 t1 then Some (- 1) else None)
      \<and> (step_result s1 = step_result s2 \<longrightarrow>
           edit_state (step_state s1) = edit_state (step_state s2))"
  proof
    assume "\<exists>c. k = Insert c"
    then obtain c where k: "k = Insert c" ..
    from assms(1) k obtain r1 a u1 where i1: "clirEditInsert ml cs1 c t1 = Some (r1, a, u1)"
      by (auto split: option.splits)
    from assms(2) k obtain r2 b u2 where i2: "clirEditInsert ml cs2 c t2 = Some (r2, b, u2)"
      by (auto split: option.splits)
    from i1 i2 assms(3) have es: "edit_state a = edit_state b" by (rule clirEditInsert_es)
    then have e: "line_state a = line_state b" by (rule edit_state_line_state)
    from i1 have r1: "r1 = (if echo_fails ml cs1 t1 then - 1 else 0)"
      by (rule clirEditInsert_result)
    from assms(1) k i1
    have f1: "s1 = (if r1 \<noteq> 0 then Return (- 1) a h u1
        else Continue (if c = CHR '' '' then a\<lparr>word_pos := pos a\<rparr> else a) h u1)"
      by (auto split: if_splits)
    from assms(2) k i2
    have f2: "s2 = (if r2 \<noteq> 0 then Return (- 1) b h u2
        else Continue (if c = CHR '' '' then b\<lparr>word_pos := pos b\<rparr> else b) h u2)"
      by (auto split: if_splits)
    from f1 r1
    have s1: "line_state (step_state s1) = line_state a \<and> step_hist s1 = h
        \<and> step_result s1 = (if echo_fails ml cs1 t1 then Some (- 1) else None)"
      by (simp add: line_state_def)
    from f2
    have s2: "line_state (step_state s2) = line_state b \<and> step_hist s2 = h"
      by (simp add: line_state_def)
    have same: "edit_state (step_state s1) = edit_state (step_state s2)"
      if "step_result s1 = step_result s2"
    proof (cases "r1 \<noteq> 0")
      case True
      with that f1 f2 have "r2 \<noteq> 0" by (auto split: if_splits)
      with True f1 f2 es show ?thesis by simp
    next
      case False
      with that f1 f2 have "r2 = 0" by (auto split: if_splits)
      with False f1 f2 es show ?thesis by (auto simp: edit_state_eq_iff)
    qed
    from s1 s2 e same show "line_state (step_state s1) = line_state (step_state s2)
      \<and> step_hist s1 = step_hist s2
      \<and> step_result s1 = (if echo_fails ml cs1 t1 then Some (- 1) else None)
      \<and> (step_result s1 = step_result s2 \<longrightarrow>
           edit_state (step_state s1) = edit_state (step_state s2))" by simp
  qed
  ultimately show ?thesis
    by (cases "\<exists>c. k = Insert c") (auto dest: edit_state_line_state)
qed

theorem write_failures_leave_edit_state_witness:
  "map_option (\<lambda>s. (line_state (step_state s), history (step_hist s), step_result s))
     (clirEdit_exec False None Backspace
        (init_state (''ab'' @ replicate 6 NUL) 8 ''> '' 80\<lparr>pos := 2, len := 2\<rparr>) hist0
        (io0\<lparr>wres := [False]\<rparr>))
   = Some ((CHR ''a'' # replicate 7 NUL, 1, 1), [], None)
   \<and> map_option (\<lambda>s. (line_state (step_state s), history (step_hist s), step_result s))
     (clirEdit_exec False None Backspace
        (init_state (''ab'' @ replicate 6 NUL) 8 ''> '' 80\<lparr>pos := 2, len := 2\<rparr>) hist0 io0)
   = Some ((CHR ''a'' # replicate 7 NUL, 1, 1), [], None)"
proof -
  let ?cs = "init_state (''ab'' @ replicate 6 NUL) 8 ''> '' 80\<lparr>pos := 2, len := 2\<rparr>"
  let ?e1 = "clirEdit_exec False None Backspace ?cs hist0 (io0\<lparr>wres := [False]\<rparr>)"
  let ?e2 = "clirEdit_exec False None Backspace ?cs hist0 io0"
  have v1: "map_option (\<lambda>s. (line_state (step_state s), history (step_hist s), step_result s)) ?e1
      = Some ((CHR ''a'' # replicate 7 NUL, 1, 1), [], None)"
    by code_simp
  then obtain s1 where r1: "?e1 = Some s1"
    and p1: "line_state (step_state s1) = (CHR ''a'' # replicate 7 NUL, 1, 1)"
      "history (step_hist s1) = []" "step_result s1 = None"
    by (cases ?e1) auto
  have "?e2 \<noteq> None" by code_simp
  then obtain s2 where r2: "?e2 = Some s2" by auto
  from write_failures_leave_edit_state [OF r1 r2 refl] p1
  have "line_state (step_state s2) = (CHR ''a'' # replicate 7 NUL, 1, 1)"
    "history (step_hist s2) = []" "step_result s2 = None"
    by simp_all
  with v1 show ?thesis unfolding r2 by simp
qed

section \<open>What the completion callback is given\<close>

lemma write_fd_cb_args: "write_fd t s = (ok, t') \<Longrightarrow> cb_args t' = cb_args t"
  by (auto simp: write_fd_def split: list.splits if_splits)

lemma write_seq_cb_args: "write_seq t xs = Some (ok, t') \<Longrightarrow> cb_args t' = cb_args t"
proof (induction xs arbitrary: t)
  case Nil
  then show ?case by simp
next
  case (Cons x xs)
  show ?case
  proof (cases x)
    case None
    with Cons.prems show ?thesis by simp
  next
    case (Some s)
    obtain ok1 t1 where w: "write_fd t s = (ok1, t1)" by (cases "write_fd t s")
    then have c: "cb_args t1 = cb_args t" by (rule write_fd_cb_args)
    show ?thesis
    proof (cases ok1)
      case True
      with Cons.prems Some w have "write_seq t1 xs = Some (ok, t')" by simp
      then have "cb_args t' = cb_args t1" by (rule Cons.IH)
      with c show ?thesis by simp
    next
      case False
      with Cons.prems Some w c show ?thesis by simp
    qed
  qed
qed

lemma refreshSingleLine_cb_args: "refreshSingleLine cs t = Some t' \<Longrightarrow> cb_args t' = cb_args t"
  unfolding refreshSingleLine_def
  by (auto split: option.splits prod.splits simp: Let_def simp del: write_seq.simps
      dest: write_seq_cb_args)

lemma refreshMultiLine_cb_args:
  "refreshMultiLine cs t = Some (cs', t') \<Longrightarrow> cb_args t' = cb_args t"
  unfolding refreshMultiLine_def Let_def
  by (auto split: if_splits option.splits prod.splits simp del: write_seq.simps
      dest!: write_seq_cb_args)

lemma refreshLine_cb_args: "refreshLine ml cs t = Some (cs', t') \<Longrightarrow> cb_args t' = cb_args t"
  by (auto simp: refreshLine_def split: if_splits
      dest: refreshMultiLine_cb_args refreshSingleLine_cb_args)

lemma clirEditInsert_cb_args:
  "clirEditInsert ml cs c t = Some (r, cs', t') \<Longrightarrow> cb_args t' = cb_args t"
  unfolding clirEditInsert_def
  by (auto simp: bind_eq_Some_conv Let_def split: if_splits prod.splits
      dest: refreshLine_cb_args write_fd_cb_args)

lemma insert_all_cb_args: "insert_all ml cs s t = Some (cs', t') \<Longrightarrow> cb_args t' = cb_args t"
proof (induction s arbitrary: cs t)
  case Nil
  then show ?case by simp
next
  case (Cons c s)
  from Cons.prems obtain r x u where
    i: "clirEditInsert ml cs c t = Some (r, x, u)" and n: "insert_all ml x s u = Some (cs', t')"
    by (auto split: option.splits)
  from n have "cb_args t' = cb_args u" by (rule Cons.IH)
  with clirEditInsert_cb_args [OF i] show ?case by simp
qed

lemma foldl_printf_cb_args: "cb_args (foldl printf t xs) = cb_args t"
  by (induction xs arbitrary: t) (simp_all add: printf_def)

lemma cstr_line:
  assumes "len cs < length (buf cs)" and "buf cs ! len cs = NUL" and "NUL \<notin> set (line_of cs)"
  shows "cstr (buf cs) = Some (line_of cs)"
proof -
  define xs where "xs = take (len cs) (buf cs)"
  define ys where "ys = drop (Suc (len cs)) (buf cs)"
  have b: "buf cs = xs @ NUL # ys"
    unfolding xs_def ys_def using assms(1,2) by (metis id_take_nth_drop)
  have "\<forall>x\<in>set xs. x \<noteq> NUL" using assms(3) by (auto simp: line_of_def xs_def)
  then have "takeWhile (\<lambda>c. c \<noteq> NUL) (xs @ NUL # ys) = xs"
    by (simp add: takeWhile_append)
  then have tw: "takeWhile (\<lambda>c. c \<noteq> NUL) (buf cs) = xs" by (simp only: b)
  have "NUL \<in> set (xs @ NUL # ys)" by simp
  then have mem: "NUL \<in> set (buf cs)" by (simp only: b)
  from mem tw show ?thesis by (simp only: cstr_def line_of_def xs_def if_True)
qed

lemma completeWord_cb_args:
  assumes "completeWord ml f cs t = Some (r, cs', t')"
  shows "\<exists>arg. cstr (buf cs) = Some arg \<and> cb_args t' = cb_args t @ [arg]"
proof -
  from assms obtain arg where arg: "cstr (buf cs) = Some arg"
    by (auto simp: completeWord_def bind_eq_Some_conv)
  let ?t0 = "t\<lparr>cb_args := cb_args t @ [arg]\<rparr>"
  have "cb_args t' = cb_args t @ [arg]"
  proof (cases "f arg = []")
    case True
    with assms arg show ?thesis
      unfolding completeWord_def by (auto simp: clirBeep_def)
  next
    case False
    with assms arg obtain valid where
      valid: "valid_flags (buf cs) (word_pos cs) (pos cs) (f arg) = Some valid"
      by (auto simp: completeWord_def bind_eq_Some_conv Let_def)
    consider (one) "length (filter (\<lambda>v. v) valid) = 1" | (many) "1 < length (filter (\<lambda>v. v) valid)"
      | (none) "length (filter (\<lambda>v. v) valid) = 0"
      by linarith
    then show ?thesis
    proof cases
      case one
      from assms arg False valid one obtain rest x1 u1 q1 where
        i1: "insert_all ml cs rest ?t0 = Some (x1, u1)"
        and e1: "clirEditInsert ml x1 (CHR '' '') u1 = Some (q1, cs', t')"
        unfolding completeWord_def
        by (auto simp: bind_eq_Some_conv Let_def split: prod.splits)
      from insert_all_cb_args [OF i1] clirEditInsert_cb_args [OF e1] show ?thesis by simp
    next
      case many
      with assms arg False valid show ?thesis
        unfolding completeWord_def by (auto simp: Let_def printf_def foldl_printf_cb_args)
    next
      case none
      with assms arg False valid show ?thesis
        unfolding completeWord_def by auto
    qed
  qed
  with arg show ?thesis by simp
qed

text \<open>
  C3, as it holds.  When the tab key is handled with a callback registered, and the
  buffer holds a terminated line without NUL bytes in it, the callback is called once,
  with the whole line from its first byte to the terminator.
\<close>

theorem callback_gets_whole_line:
  assumes "clirEdit_exec ml (Some f) Complete cs h t = Some s"
    and "len cs < length (buf cs)" and "buf cs ! len cs = NUL" and "NUL \<notin> set (line_of cs)"
  shows "cb_args (step_io s) = cb_args t @ [line_of cs]"
proof -
  from assms(1) obtain r cs' t' where c: "completeWord ml f cs t = Some (r, cs', t')"
    by (auto split: option.splits)
  from assms(1) c have "cb_args (step_io s) = cb_args t'"
    by (auto simp: continue_def split: if_splits dest: refreshLine_cb_args)
  moreover from completeWord_cb_args [OF c] cstr_line [OF assms(2-4)]
  have "cb_args t' = cb_args t @ [line_of cs]" by auto
  ultimately show ?thesis by simp
qed

theorem callback_gets_whole_line_witness:
  "map_option (\<lambda>s. cb_args (step_io s))
     (clirEdit_exec False (Some completion) Complete
        (init_state (''a h'' @ replicate 5 NUL) 8 ''hello> '' 80
           \<lparr>pos := 3, len := 3, word_pos := 2\<rparr>) hist0 io0)
   = Some [''a h'']"
proof -
  let ?cs = "init_state (''a h'' @ replicate 5 NUL) 8 ''hello> '' 80
           \<lparr>pos := 3, len := 3, word_pos := 2\<rparr>"
  let ?e = "clirEdit_exec False (Some completion) Complete ?cs hist0 io0"
  have "?e \<noteq> None" by code_simp
  then obtain s where r: "?e = Some s" by auto
  have h2: "len ?cs < length (buf ?cs)" by (simp add: init_state_def)
  have h3: "buf ?cs ! len ?cs = NUL" by (simp add: init_state_def)
  have h4: "NUL \<notin> set (line_of ?cs)" by (simp add: init_state_def line_of_def)
  from callback_gets_whole_line [OF r h2 h3 h4]
  have "cb_args (step_io s) = [''a h'']" by (simp add: init_state_def line_of_def io0_def)
  then show ?thesis unfolding r by simp
qed

section \<open>Cursor, length and capacity\<close>

lemma skip_spaces_back_le: "skip_spaces_back b p = Some q \<Longrightarrow> q \<le> p"
  by (induction p) (auto split: option.splits if_splits)

lemma skip_word_back_le: "skip_word_back b p = Some q \<Longrightarrow> q \<le> p"
  by (induction p) (auto split: option.splits if_splits)

lemma sz_sub_exact: "b \<le> a \<Longrightarrow> a < 2 ^ 64 \<Longrightarrow> sz_sub a b = a - b"
proof -
  assume le: "b \<le> a" and lt: "a < 2 ^ 64"
  have "int a < int (2 ^ 64)" using lt by (simp only: of_nat_less_iff)
  then have "int a - int b < 2 ^ 64" by simp
  moreover have "0 \<le> int a - int b" using le by simp
  ultimately have "u64 (int a - int b) = int a - int b" by (simp add: u64_def)
  then show ?thesis using le by (simp add: sz_sub_def)
qed

lemma clirEditInsert_cursor_ok:
  "clirEditInsert ml cs c t = Some (r, cs', t') \<Longrightarrow> cursor_ok cs \<Longrightarrow> cursor_ok cs'"
  unfolding clirEditInsert_def cursor_ok_def
  by (auto simp: bind_eq_Some_conv Let_def split: if_splits prod.splits
      dest!: refreshLine_cursor)

lemma clirEditDelete_cursor_ok:
  "clirEditDelete ml cs t = Some (cs', t') \<Longrightarrow> cursor_ok cs \<Longrightarrow> cursor_ok cs'"
  unfolding clirEditDelete_def cursor_ok_def
  by (auto simp: bind_eq_Some_conv split: if_splits dest!: refreshLine_cursor)

lemma clirEditBackspace_cursor_ok:
  "clirEditBackspace ml cs t = Some (cs', t') \<Longrightarrow> cursor_ok cs \<Longrightarrow> cursor_ok cs'"
  unfolding clirEditBackspace_def cursor_ok_def
  by (auto simp: bind_eq_Some_conv split: if_splits dest!: refreshLine_cursor)

lemma clirEditDeletePrevWord_cursor_ok:
  assumes "clirEditDeletePrevWord ml cs t = Some (cs', t')" and "cursor_ok cs"
  shows "cursor_ok cs'"
proof -
  from assms(1) obtain p1 p2 b where
    p1: "skip_spaces_back (buf cs) (pos cs) = Some p1" and
    p2: "skip_word_back (buf cs) p1 = Some p2" and
    r: "refreshLine ml (cs\<lparr>buf := b, pos := p2,
          len := sz_sub (len cs) (sz_sub (pos cs) p2)\<rparr>) t = Some (cs', t')"
    unfolding clirEditDeletePrevWord_def by (auto simp: bind_eq_Some_conv Let_def)
  from p1 p2 have le: "p2 \<le> pos cs"
    using skip_spaces_back_le skip_word_back_le by (meson le_trans)
  from assms(2) have c: "pos cs \<le> len cs" "len cs \<le> buflen cs" "buflen cs < 2 ^ 64"
    by (simp_all add: cursor_ok_def)
  then have "pos cs < 2 ^ 64" "len cs < 2 ^ 64" by linarith+
  with le c have d: "sz_sub (pos cs) p2 = pos cs - p2"
    and l: "sz_sub (len cs) (pos cs - p2) = len cs - (pos cs - p2)"
    by (simp_all add: sz_sub_exact)
  from refreshLine_cursor [OF r] d l le c show ?thesis
    by (auto simp: cursor_ok_def)
qed

lemma apply_edit_cursor_ok:
  "apply_edit ml e cs t = Some (cs', t') \<Longrightarrow> cursor_ok cs \<Longrightarrow> cursor_ok cs'"
  by (cases e)
     (auto dest: clirEditInsert_cursor_ok clirEditDelete_cursor_ok clirEditBackspace_cursor_ok
        clirEditDeletePrevWord_cursor_ok)

lemma run_edits_cursor_ok:
  "run_edits ml es cs t = Some (cs', t') \<Longrightarrow> cursor_ok cs \<Longrightarrow> cursor_ok cs'"
proof (induction es arbitrary: cs t)
  case Nil
  then show ?case by simp
next
  case (Cons e es)
  from Cons.prems(1) obtain x u where
    a: "apply_edit ml e cs t = Some (x, u)" and r: "run_edits ml es x u = Some (cs', t')"
    by (auto split: option.splits)
  from a Cons.prems(2) have "cursor_ok x" by (rule apply_edit_cursor_ok)
  with r show ?case by (rule Cons.IH)
qed

lemma apply_edit_buflen:
  "apply_edit ml e cs t = Some (cs', t') \<Longrightarrow> buflen cs' = buflen cs"
  by (cases e)
     (auto simp: clirEditInsert_def clirEditDelete_def clirEditBackspace_def
        clirEditDeletePrevWord_def bind_eq_Some_conv Let_def
        split: if_splits prod.splits dest!: refreshLine_buflen)

lemma run_edits_buflen:
  "run_edits ml es cs t = Some (cs', t') \<Longrightarrow> buflen cs' = buflen cs"
proof (induction es arbitrary: cs t)
  case Nil
  then show ?case by simp
next
  case (Cons e es)
  from Cons.prems(1) obtain x u where
    a: "apply_edit ml e cs t = Some (x, u)" and r: "run_edits ml es x u = Some (cs', t')"
    by (auto split: option.splits)
  from Cons.IH [OF r] apply_edit_buflen [OF a] show ?case by simp
qed

text \<open>
  C8.  Start from the empty buffer that \<open>clirEdit\<close> sets up, with an announced size
  \<open>n\<close>, and apply any sequence of insert, delete-forward, delete-backward and
  delete-previous-word operations.  In the state after the sequence (so after every
  operation, each prefix being a sequence itself) the cursor is at most the length and
  the length at most the capacity \<open>buflen\<close>, which is still \<open>n\<close>.
\<close>

theorem cursor_within_length_within_capacity:
  assumes "n < 2 ^ 64"
    and "run_edits ml es (init_state b n pr columns) t = Some (cs, t')"
  shows "0 \<le> pos cs \<and> pos cs \<le> len cs \<and> len cs \<le> buflen cs \<and> buflen cs = n"
proof -
  have "cursor_ok (init_state b n pr columns)"
    using assms(1) by (simp add: cursor_ok_def init_state_def)
  with assms(2) have "cursor_ok cs" by (rule run_edits_cursor_ok)
  moreover from assms(2) have "buflen cs = n"
    by (simp add: run_edits_buflen init_state_def)
  ultimately show ?thesis by (simp add: cursor_ok_def)
qed

theorem cursor_within_length_within_capacity_witness:
  "(8::nat) < 2 ^ 64
   \<and> map_option (\<lambda>(cs, t). (pos cs, len cs, buflen cs))
       (run_edits False
          [EditInsert (CHR ''a''), EditInsert (CHR ''b''), EditInsert (CHR '' ''),
           EditInsert (CHR ''c''), EditDeletePrevWord, EditBackspace, EditDelete,
           EditInsert (CHR ''d'')]
          (init_state (replicate 8 NUL) 8 ''> '' 80) io0)
     = Some (3, 3, 8)"
proof -
  let ?run = "run_edits False
          [EditInsert (CHR ''a''), EditInsert (CHR ''b''), EditInsert (CHR '' ''),
           EditInsert (CHR ''c''), EditDeletePrevWord, EditBackspace, EditDelete,
           EditInsert (CHR ''d'')]
          (init_state (replicate 8 NUL) 8 ''> '' 80) io0"
  have v: "map_option (\<lambda>(cs, t). (pos cs, len cs)) ?run = Some (3, 3)"
    by code_simp
  then obtain cs t' where r: "?run = Some (cs, t')" and p: "pos cs = 3" "len cs = 3"
    by (cases ?run) auto
  have n: "(8::nat) < 2 ^ 64" by simp
  from cursor_within_length_within_capacity [OF n r] have "buflen cs = 8" by simp
  with p show ?thesis unfolding r by simp
qed

section \<open>Sessions on concrete input\<close>

text \<open>The scenario of the demonstration program, in each display mode.\<close>

lemma completion_scenario_single_row:
  "map_option (line_of \<circ> state_of) (demo_session False [Bytes ''h'', Bytes [TAB]]) = Some ''h''
   \<and> map_option (sout \<circ> io_of) (demo_session False [Bytes ''h'', Bytes [TAB]])
       = Some [[CR, LF], listed ''hello'', listed ''hi'', listed ''hey'', listed ''howzit'', [CR, LF]]
   \<and> map_option (line_of \<circ> state_of) (demo_session False [Bytes ''he'', Bytes [TAB]]) = Some ''he''
   \<and> map_option (sout \<circ> io_of) (demo_session False [Bytes ''he'', Bytes [TAB]])
       = Some [[CR, LF], listed ''hello'', listed ''hey'', [CR, LF]]
   \<and> map_option (line_of \<circ> state_of) (demo_session False [Bytes ''hel'', Bytes [TAB]])
       = Some ''hello ''
   \<and> map_option (sout \<circ> io_of) (demo_session False [Bytes ''hel'', Bytes [TAB]]) = Some []"
  by code_simp

lemma completion_scenario_multi_row:
  "map_option (line_of \<circ> state_of) (demo_session True [Bytes ''h'', Bytes [TAB]]) = Some ''h''
   \<and> map_option (sout \<circ> io_of) (demo_session True [Bytes ''h'', Bytes [TAB]])
       = Some [[CR, LF], listed ''hello'', listed ''hi'', listed ''hey'', listed ''howzit'', [CR, LF]]
   \<and> map_option (line_of \<circ> state_of) (demo_session True [Bytes ''he'', Bytes [TAB]]) = Some ''he''
   \<and> map_option (sout \<circ> io_of) (demo_session True [Bytes ''he'', Bytes [TAB]])
       = Some [[CR, LF], listed ''hello'', listed ''hey'', [CR, LF]]
   \<and> map_option (line_of \<circ> state_of) (demo_session True [Bytes ''hel'', Bytes [TAB]])
       = Some ''hello ''
   \<and> map_option (sout \<circ> io_of) (demo_session True [Bytes ''hel'', Bytes [TAB]]) = Some []"
  by code_simp

text \<open>
  C9.  The callback of the demonstration program offers \<open>hello\<close>, \<open>hi\<close>, \<open>hey\<close>,
  \<open>howzit\<close> for a line that starts with \<open>h\<close>.  In a session of that program, in
  either display mode, the tab key after \<open>h\<close> prints all four candidates and leaves
  the line \<open>h\<close>; after \<open>he\<close> it prints \<open>hello\<close> and \<open>hey\<close> only and leaves the line
  \<open>he\<close>; after \<open>hel\<close> it prints nothing and the line becomes \<open>hello\<close> followed by
  a space.
\<close>

theorem completion_scenario:
  "map_option (line_of \<circ> state_of) (demo_session ml [Bytes ''h'', Bytes [TAB]]) = Some ''h''
   \<and> map_option (sout \<circ> io_of) (demo_session ml [Bytes ''h'', Bytes [TAB]])
       = Some [[CR, LF], listed ''hello'', listed ''hi'', listed ''hey'', listed ''howzit'', [CR, LF]]
   \<and> map_option (line_of \<circ> state_of) (demo_session ml [Bytes ''he'', Bytes [TAB]]) = Some ''he''
   \<and> map_option (sout \<circ> io_of) (demo_session ml [Bytes ''he'', Bytes [TAB]])
       = Some [[CR, LF], listed ''hello'', listed ''hey'', [CR, LF]]
   \<and> map_option (line_of \<circ> state_of) (demo_session ml [Bytes ''hel'', Bytes [TAB]])
       = Some ''hello ''
   \<and> map_option (sout \<circ> io_of) (demo_session ml [Bytes ''hel'', Bytes [TAB]]) = Some []"
proof (cases ml)
  case True
  then show ?thesis using completion_scenario_multi_row by simp
next
  case False
  then show ?thesis using completion_scenario_single_row by simp
qed

text \<open>
  C4.  A session that ends with control-C returns \<open>-1\<close> and leaves the placeholder
  entry, the empty string added at the start of the session, in the history; a
  session that ends with Enter removes it.
\<close>

theorem interrupt_keeps_placeholder:
  "map_option ret_of (demo_session False [Bytes [CHR 0x03]]) = Some (- 1)
   \<and> map_option (history \<circ> hist_of) (demo_session False [Bytes [CHR 0x03]]) = Some [[]]
   \<and> map_option ret_of (demo_session False [Bytes [CR]]) = Some 0
   \<and> map_option (history \<circ> hist_of) (demo_session False [Bytes [CR]]) = Some []"
  by code_simp

text \<open>
  When the line is one byte short of the announced size and the array is exactly that
  size, \<open>clirEditInsert\<close> still accepts a character; its store of the terminator is
  then outside the array.
\<close>

lemma clirEditInsert_fills_last_byte:
  assumes "len cs = pos cs" and "Suc (len cs) = buflen cs" and "length (buf cs) = buflen cs"
  shows "clirEditInsert ml cs c t = None"
  using assms by (simp add: clirEditInsert_def st_def)

text \<open>
  C10.  With a two-byte buffer announced as two bytes, the second character typed is
  accepted and the terminator is then stored at index 2, outside the buffer: the
  session has no defined result.  With a spare third byte behind the same announced
  size the session shows where the bytes go: the text fills both announced bytes
  (length 2, not 1) and the terminator lands in the spare byte.
\<close>

theorem no_byte_reserved_for_terminator:
  "clirEdit False None (Some 80) (replicate 2 NUL) 2 ''> '' hist0 io0 [Bytes ''ab''] = None
   \<and> map_option (len \<circ> state_of)
       (clirEdit False None (Some 80) (replicate 3 (CHR ''#'')) 2 ''> '' hist0 io0 [Bytes ''ab''])
     = Some 2
   \<and> map_option (buf \<circ> state_of)
       (clirEdit False None (Some 80) (replicate 3 (CHR ''#'')) 2 ''> '' hist0 io0 [Bytes ''ab''])
     = Some [CHR ''a'', CHR ''b'', NUL]"
  by code_simp

text \<open>
  C3, as stated, fails: after \<open>a h\<close> the tab key hands the callback the whole line
  \<open>a h\<close>, while the text typed since the last whitespace boundary is \<open>h\<close>.
\<close>

theorem callback_gets_more_than_current_word:
  "map_option (cb_args \<circ> io_of) (demo_session False [Bytes ''a h'', Bytes [TAB]]) = Some [''a h'']
   \<and> map_option (current_word \<circ> state_of) (demo_session False [Bytes ''a h'', Bytes [TAB]])
       = Some ''h''"
  by code_simp

text \<open>
  A failed echo inside tab completion is not reported.  After \<open>hel\<close> the tab key
  completes the word to \<open>hello\<close> followed by a space; the echo of the first completed
  character (the fifth write of the session) fails, and the session goes on to read
  \<open>x\<close> and the Enter key and returns the length of the line \<open>hello x\<close>.
\<close>

lemma failed_echo_in_completion_is_swallowed:
  "map_option ret_of
     (clirEdit False (Some completion) (Some 80) (replicate 16 NUL) 16 ''hello> '' hist0
        (io0\<lparr>wres := [True, True, True, True, False]\<rparr>)
        [Bytes ''hel'', Bytes [TAB], Bytes ''x'', Bytes [CR]]) = Some 7
   \<and> map_option (line_of \<circ> state_of)
     (clirEdit False (Some completion) (Some 80) (replicate 16 NUL) 16 ''hello> '' hist0
        (io0\<lparr>wres := [True, True, True, True, False]\<rparr>)
        [Bytes ''hel'', Bytes [TAB], Bytes ''x'', Bytes [CR]]) = Some ''hello x''
   \<and> map_option (wres \<circ> io_of)
     (clirEdit False (Some completion) (Some 80) (replicate 16 NUL) 16 ''hello> '' hist0
        (io0\<lparr>wres := [True, True, True, True, False]\<rparr>)
        [Bytes ''hel'', Bytes [TAB], Bytes ''x'', Bytes [CR]]) = Some []"
  by code_simp

text \<open>
  C2, as stated, fails: when the write that echoes the typed character \<open>a\<close> fails
  (the second write of the session, after the prompt), the session ends at once and
  returns \<open>-1\<close>, with the rest of the input unread; with working writes the same
  input gives the line \<open>ab\<close> and the result 2.
\<close>

theorem failed_echo_ends_session_with_error:
  "map_option ret_of
     (clirEdit False None (Some 80) (replicate 16 NUL) 16 ''> '' hist0 (io0\<lparr>wres := [True, False]\<rparr>)
        [Bytes ''ab'', Bytes [CR]]) = Some (- 1)
   \<and> map_option rest_of
     (clirEdit False None (Some 80) (replicate 16 NUL) 16 ''> '' hist0 (io0\<lparr>wres := [True, False]\<rparr>)
        [Bytes ''ab'', Bytes [CR]]) = Some [Bytes ''b'', Bytes [CR]]
   \<and> map_option ret_of
     (clirEdit False None (Some 80) (replicate 16 NUL) 16 ''> '' hist0 io0
        [Bytes ''ab'', Bytes [CR]]) = Some 2
   \<and> map_option (line_of \<circ> state_of)
     (clirEdit False None (Some 80) (replicate 16 NUL) 16 ''> '' hist0 io0
        [Bytes ''ab'', Bytes [CR]]) = Some ''ab''"
  by code_simp

end
